theory Spec2Isabelle
  imports Complex_Main
begin

section \<open>Conventions of the embedding\<close>

text \<open>
  The simulation is written in JavaScript. Its numbers are idealised as follows: grid
  coordinates, tick counters and array indices are integers; the quantities of the world
  and of an agent (temperature, catalyser density, energy, fitness) are real numbers, so
  the rounding of IEEE doubles is not modelled. The numbers of a network, which can
  overflow, have a type of their own with the two infinities and \<^verbatim>\<open>NaN\<close>.

  Arrays are lists. Every call of \<^verbatim>\<open>Math.random()\<close> is an input of the model: a function
  that draws takes the drawn values as an extra first argument, named after the call site
  and indexed by the loop counters of that site. No theorem assumes anything about the
  drawn values beyond what is stated in it.

  A mutating method becomes a function from the state before the call to the state after
  it; a method that also returns a value returns a pair.
\<close>

section \<open>WorldPhysics: data\<close>

datatype core_state = dormant | incubated | bloomed

datatype phase = emit | collect

text \<open>
  A core as \<^verbatim>\<open>initializeCores\<close> creates it. The optional property \<^verbatim>\<open>moveAfterTick\<close> is
  absent (\<open>None\<close>) until \<^verbatim>\<open>scheduleCoreMovement\<close> sets it, and is deleted again by
  \<^verbatim>\<open>updateCores\<close>.
\<close>

record core =
  core_x :: int
  core_y :: int
  state :: core_state
  incubationTime :: int
  bloomTime :: int
  temperatureExposure :: real
  consecutiveHighTemp :: nat
  core_id :: nat
  moveAfterTick :: "int option"

record energy =
  en_x :: int
  en_y :: int
  createdAt :: int
  active :: bool
  coreId :: nat

text \<open>
  \<open>catalyser\<close> is \<^verbatim>\<open>lowerDimension.catalyser\<close> and \<open>upper_catalyser\<close> is
  \<^verbatim>\<open>upperDimension.catalyser\<close>; a grid \<open>g\<close> is a list of columns, \<^verbatim>\<open>g[x][y]\<close>.
\<close>

record world =
  gridSize :: nat
  tick :: int
  phase :: phase
  temperature :: "real list list"
  catalyser :: "real list list"
  cores :: "core list"
  energies :: "energy list"
  upper_catalyser :: "real list list"

definition cell :: "real list list \<Rightarrow> int \<Rightarrow> int \<Rightarrow> real" where
  "cell g x y = g ! nat x ! nat y"

definition in_grid :: "world \<Rightarrow> int \<Rightarrow> int \<Rightarrow> bool" where
  "in_grid w x y \<longleftrightarrow> \<not> (x < 0 \<or> int (gridSize w) \<le> x \<or> y < 0 \<or> int (gridSize w) \<le> y)"

definition clamp01 :: "real \<Rightarrow> real" where
  "clamp01 r = max 0 (min 1 r)"

section \<open>WorldPhysics: energy consumption\<close>

text \<open>\<^verbatim>\<open>Array.prototype.findIndex\<close>: the index of the first match, \<open>None\<close> for \<^verbatim>\<open>-1\<close>.\<close>

fun findIndex :: "('a \<Rightarrow> bool) \<Rightarrow> 'a list \<Rightarrow> nat option" where
  "findIndex P [] = None"
| "findIndex P (a # as) = (if P a then Some 0 else map_option Suc (findIndex P as))"

text \<open>The predicate of \<^verbatim>\<open>consumeEnergy\<close> and \<^verbatim>\<open>getRawPhysicalProperties\<close>:
  \<^verbatim>\<open>energy.x === x && energy.y === y && energy.active\<close>.\<close>

definition energy_at :: "int \<Rightarrow> int \<Rightarrow> energy \<Rightarrow> bool" where
  "energy_at x y e \<longleftrightarrow> en_x e = x \<and> en_y e = y \<and> active e"

text \<open>
  \<^verbatim>\<open>scheduleCoreMovement(coreId, delay)\<close>: \<^verbatim>\<open>find\<close> returns the first core with that id and
  the assignment mutates it in place; no core with that id leaves the world unchanged.
\<close>

definition scheduleCoreMovement :: "nat \<Rightarrow> int \<Rightarrow> world \<Rightarrow> world" where
  "scheduleCoreMovement cid delay w =
     (case findIndex (\<lambda>c. core_id c = cid) (cores w) of
        None \<Rightarrow> w
      | Some j \<Rightarrow> w\<lparr>cores := (cores w)[j := (cores w ! j)\<lparr>moveAfterTick := Some (tick w + delay)\<rparr>]\<rparr>)"

text \<open>\<^verbatim>\<open>arr.splice(k, 1)\<close> for an index \<open>k\<close> of the array.\<close>

definition splice1 :: "nat \<Rightarrow> 'a list \<Rightarrow> 'a list" where
  "splice1 k xs = take k xs @ drop (Suc k) xs"

definition consumeEnergy :: "int \<Rightarrow> int \<Rightarrow> world \<Rightarrow> real \<times> world" where
  "consumeEnergy x y w =
     (case findIndex (energy_at x y) (energies w) of
        Some energyIndex \<Rightarrow>
          (let en = energies w ! energyIndex;
               w1 = scheduleCoreMovement (coreId en) 3 w
           in (10, w1\<lparr>energies := splice1 energyIndex (energies w1)\<rparr>))
      | None \<Rightarrow> (0, w))"

section \<open>WorldPhysics: the sensory interface\<close>

record props =
  field1 :: real
  field2 :: real
  field3 :: real
  field4 :: real
  field5 :: real
  confidence :: real

definition coreValue :: "core option \<Rightarrow> real" where
  "coreValue c =
     (case c of
        None \<Rightarrow> 0
      | Some k \<Rightarrow> (case state k of dormant \<Rightarrow> 0.3 | incubated \<Rightarrow> 0.6 | bloomed \<Rightarrow> 0.9))"

text \<open>The eight neighbour offsets in the order of the source's two nested loops.\<close>

definition neighbour_offsets :: "(int \<times> int) list" where
  "neighbour_offsets =
     [(-1, -1), (-1, 0), (-1, 1), (0, -1), (0, 1), (1, -1), (1, 0), (1, 1)]"

text \<open>One round of the neighbour loop: the pair is (neighborInfluence, neighborCount).\<close>

definition neighbour_step :: "world \<Rightarrow> int \<Rightarrow> int \<Rightarrow> int \<times> int \<Rightarrow> real \<times> nat \<Rightarrow> real \<times> nat" where
  "neighbour_step w x y d acc =
     (let nx = x + fst d; ny = y + snd d
      in if 0 \<le> nx \<and> nx < int (gridSize w) \<and> 0 \<le> ny \<and> ny < int (gridSize w)
         then (fst acc + (cell (temperature w) nx ny + cell (catalyser w) nx ny), Suc (snd acc))
         else acc)"

definition baseConfidence :: "int \<Rightarrow> real" where
  "baseConfidence distance =
     (if distance = 0 then 1.0 else if distance = 1 then 0.9 else if distance = 2 then 0.7
      else if distance = 3 then 0.5 else if distance = 4 then 0.3 else 0.1)"

text \<open>
  \<^verbatim>\<open>getRawPhysicalProperties(x, y, distance, observerEnergy)\<close>. \<open>nz k\<close> is the value of the
  \<open>k\<close>-th \<^verbatim>\<open>Math.random()\<close> of the noise block (\<open>k = 0..4\<close>). The bounds check comes first
  and returns before any array is read.
\<close>

definition getRawPhysicalProperties ::
  "(nat \<Rightarrow> real) \<Rightarrow> world \<Rightarrow> int \<Rightarrow> int \<Rightarrow> int \<Rightarrow> real \<Rightarrow> props" where
  "getRawPhysicalProperties nz w x y distance observerEnergy =
     (if x < 0 \<or> int (gridSize w) \<le> x \<or> y < 0 \<or> int (gridSize w) \<le> y
      then \<lparr>field1 = 0, field2 = 0, field3 = 0, field4 = 0, field5 = 0, confidence = 0\<rparr>
      else
        let temp = cell (temperature w) x y;
            cat = cell (catalyser w) x y;
            cv = coreValue (find (\<lambda>c. core_x c = x \<and> core_y c = y) (cores w));
            energyValue = (if list_ex (energy_at x y) (energies w) then 1.0 else 0);
            t = real_of_int (tick w);
            f1 = (temp * 0.7 + cat * 0.3) * (1 + sin (t * 0.1) * 0.1);
            f2 = (cv * 0.6 + temp * cat * 0.4) + cos (t * 0.05) * 0.1;
            f3 = temp * cat * (1 + cv) + energyValue * 0.8
                 + sin (real_of_int (x + y + tick w) * 0.1) * 0.1;
            f4 = temp * 0.5 + cat * 0.3 + cv * 0.2;
            f5 = 0;
            nb = foldl (\<lambda>acc d. neighbour_step w x y d acc) (0, 0) neighbour_offsets;
            f4' = (if 0 < snd nb then f4 + (fst nb / real (snd nb)) * 0.2 else f4);
            energyMultiplier = max 0.1 (min 1.0 (observerEnergy / 100.0));
            finalConfidence = baseConfidence distance * energyMultiplier;
            noiseLevel = 1 - finalConfidence;
            noisy = (0 < distance \<or> observerEnergy < 100);
            totalNoise = noiseLevel * 0.2 + (1 - energyMultiplier) * 0.3;
            g1 = (if noisy then f1 + (nz 0 - 0.5) * totalNoise else f1);
            g2 = (if noisy then f2 + (nz 1 - 0.5) * totalNoise else f2);
            g3 = (if noisy then f3 + (nz 2 - 0.5) * totalNoise else f3);
            g4 = (if noisy then f4' + (nz 3 - 0.5) * totalNoise else f4');
            g5 = (if noisy then f5 + (nz 4 - 0.5) * totalNoise else f5)
        in \<lparr>field1 = clamp01 g1, field2 = clamp01 g2, field3 = clamp01 g3,
            field4 = clamp01 g4, field5 = clamp01 g5, confidence = finalConfidence\<rparr>)"

section \<open>WorldPhysics: construction\<close>

text \<open>\<^verbatim>\<open>Math.random()\<close> returns a number \<open>r\<close> with \<open>0 \<le> r < 1\<close>.\<close>

definition unit_draw :: "real \<Rightarrow> bool" where
  "unit_draw r \<longleftrightarrow> 0 \<le> r \<and> r < 1"

text \<open>
  The draws of the constructor and of \<^verbatim>\<open>reset\<close>: the temperature noise and the initial
  upper catalyser by cell, the two coordinates of each core by core index.
\<close>

record world_draws =
  temp_noise :: "nat \<Rightarrow> nat \<Rightarrow> real"
  upper_init :: "nat \<Rightarrow> nat \<Rightarrow> real"
  core_rx :: "nat \<Rightarrow> real"
  core_ry :: "nat \<Rightarrow> real"

definition unit_world_draws :: "world_draws \<Rightarrow> bool" where
  "unit_world_draws d \<longleftrightarrow>
     (\<forall>x y. unit_draw (temp_noise d x y)) \<and> (\<forall>x y. unit_draw (upper_init d x y))
     \<and> (\<forall>i. unit_draw (core_rx d i)) \<and> (\<forall>i. unit_draw (core_ry d i))"

definition generateTemperatureField :: "(nat \<Rightarrow> nat \<Rightarrow> real) \<Rightarrow> nat \<Rightarrow> real list list" where
  "generateTemperatureField rnd g =
     map (\<lambda>x. map (\<lambda>y.
            let temp = 0 + sin ((real x * 2 * pi) / 30) * 0.4
                         + sin ((real y * 2 * pi) / 45) * 0.2
                         + sin ((real (x + y) * 2 * pi) / 25) * 0.15
                         + (rnd x y - 0.5) * 0.1
            in max 0 (min 1 ((temp + 1) / 2)))
          [0..<g])
       [0..<g]"

definition numCores :: nat where
  "numCores = 50"

definition initializeCores :: "(nat \<Rightarrow> real) \<Rightarrow> (nat \<Rightarrow> real) \<Rightarrow> nat \<Rightarrow> core list" where
  "initializeCores rx ry g =
     map (\<lambda>i. \<lparr>core_x = \<lfloor>rx i * real g\<rfloor>, core_y = \<lfloor>ry i * real g\<rfloor>, state = dormant,
               incubationTime = 0, bloomTime = 0, temperatureExposure = 0,
               consecutiveHighTemp = 0, core_id = i, moveAfterTick = None\<rparr>)
       [0..<numCores]"

definition WorldPhysics :: "world_draws \<Rightarrow> nat \<Rightarrow> world" where
  "WorldPhysics d g =
     \<lparr>gridSize = g, tick = 0, phase = emit,
      temperature = generateTemperatureField (temp_noise d) g,
      catalyser = replicate g (replicate g 0),
      cores = initializeCores (core_rx d) (core_ry d) g,
      energies = [],
      upper_catalyser = map (\<lambda>x. map (\<lambda>y. upper_init d x y * 2) [0..<g]) [0..<g]\<rparr>"

definition reset :: "world_draws \<Rightarrow> world \<Rightarrow> world" where
  "reset d w =
     w\<lparr>tick := 0, phase := emit,
       temperature := generateTemperatureField (temp_noise d) (gridSize w),
       catalyser := replicate (gridSize w) (replicate (gridSize w) 0),
       energies := [],
       upper_catalyser :=
         map (\<lambda>x. map (\<lambda>y. upper_init d x y * 2) [0..<gridSize w]) [0..<gridSize w],
       cores := initializeCores (core_rx d) (core_ry d) (gridSize w)\<rparr>"

section \<open>WorldPhysics: one step\<close>

text \<open>The cells of the grid in the order of the loops \<^verbatim>\<open>for x ... for y ...\<close>.\<close>

definition grid_cells :: "nat \<Rightarrow> (nat \<times> nat) list" where
  "grid_cells g = concat (map (\<lambda>x. map (\<lambda>y. (x, y)) [0..<g]) [0..<g])"

text \<open>The assignment \<^verbatim>\<open>grid[x][y] = v\<close>.\<close>

definition set_cell :: "real list list \<Rightarrow> nat \<Rightarrow> nat \<Rightarrow> real \<Rightarrow> real list list" where
  "set_cell g x y v = g[x := (g ! x)[y := v]]"

text \<open>
  The first loop of \<^verbatim>\<open>shiftTemperature\<close> writes \<^verbatim>\<open>newTemperature[(x + 1) % gridSize][y]\<close>
  for every \<open>x\<close>; read by target column \<open>nx\<close>, the source column is the one before it on
  the torus.
\<close>

definition shifted :: "nat \<Rightarrow> real list list \<Rightarrow> real list list" where
  "shifted g t = map (\<lambda>nx. map (\<lambda>y. t ! ((nx + g - 1) mod g) ! y) [0..<g]) [0..<g]"

text \<open>
  The second loop works in place on \<^verbatim>\<open>newTemperature\<close>: a cell reads the neighbours the
  loop has already diffused. The pair of the inner fold is (neighborSum, neighborCount).
\<close>

definition wrap :: "nat \<Rightarrow> nat \<Rightarrow> int \<Rightarrow> nat" where
  "wrap g x dx = nat ((int x + dx + int g) mod int g)"

definition diffuse_cell ::
  "nat \<Rightarrow> (nat \<Rightarrow> nat \<Rightarrow> real) \<Rightarrow> real list list \<Rightarrow> nat \<times> nat \<Rightarrow> real list list" where
  "diffuse_cell g noise nt c =
     (let x = fst c; y = snd c;
          nb = foldl (\<lambda>acc d. (fst acc + nt ! wrap g x (fst d) ! wrap g y (snd d), Suc (snd acc)))
                 (0, 0::nat) neighbour_offsets;
          diffusedTemp = (if 0 < snd nb
                          then nt ! x ! y * (1 - 0.1) + (fst nb / real (snd nb)) * 0.1
                          else nt ! x ! y)
      in set_cell nt x y (max 0 (min 1 (diffusedTemp + (noise x y - 0.5) * 0.02))))"

definition shiftTemperature :: "(nat \<Rightarrow> nat \<Rightarrow> real) \<Rightarrow> world \<Rightarrow> world" where
  "shiftTemperature noise w =
     w\<lparr>temperature :=
         foldl (diffuse_cell (gridSize w) noise) (shifted (gridSize w) (temperature w))
           (grid_cells (gridSize w))\<rparr>"

text \<open>\<^verbatim>\<open>emitPhase\<close>: every cell is read and written by its own iteration only.\<close>

definition emitPhase :: "world \<Rightarrow> world" where
  "emitPhase w =
     w\<lparr>catalyser :=
         map (\<lambda>x. map (\<lambda>y. catalyser w ! x ! y + upper_catalyser w ! x ! y) [0..<gridSize w])
           [0..<gridSize w],
       upper_catalyser :=
         map (\<lambda>x. map (\<lambda>y. upper_catalyser w ! x ! y * 0.8) [0..<gridSize w])
           [0..<gridSize w]\<rparr>"

text \<open>
  \<^verbatim>\<open>collectPhase\<close>. The neighbourhood of the redistribution is the full 3 by 3 block (the
  cell itself included), cut at the border of the grid; a neighbour is (x, y, density).
\<close>

definition block_offsets :: "(int \<times> int) list" where
  "block_offsets =
     [(-1, -1), (-1, 0), (-1, 1), (0, -1), (0, 0), (0, 1), (1, -1), (1, 0), (1, 1)]"

definition collect_neighbours :: "nat \<Rightarrow> real list list \<Rightarrow> nat \<Rightarrow> nat \<Rightarrow> (nat \<times> nat \<times> real) list" where
  "collect_neighbours g u x y =
     map (\<lambda>d. (nat (int x + fst d), nat (int y + snd d),
               u ! nat (int x + fst d) ! nat (int y + snd d)))
       (filter (\<lambda>d. 0 \<le> int x + fst d \<and> int x + fst d < int g
                    \<and> 0 \<le> int y + snd d \<and> int y + snd d < int g)
          block_offsets)"

definition collect_cell ::
  "nat \<Rightarrow> real list list \<Rightarrow> real list list \<times> real list list \<Rightarrow> nat \<times> nat
     \<Rightarrow> real list list \<times> real list list" where
  "collect_cell g u st c =
     (let low = fst st; newCatalyser = snd st; x = fst c; y = snd c;
          currentCatalyser = low ! x ! y
      in if 0 < currentCatalyser
         then
           let neighbors = collect_neighbours g u x y;
               totalDensity = foldl (\<lambda>s n. s + snd (snd n)) 0 neighbors;
               newCatalyser' =
                 (if 0 < totalDensity
                  then foldl (\<lambda>nc n. set_cell nc (fst n) (fst (snd n))
                                      (nc ! fst n ! fst (snd n)
                                        + currentCatalyser * (snd (snd n) / totalDensity)))
                         newCatalyser neighbors
                  else newCatalyser)
           in (set_cell low x y 0, newCatalyser')
         else st)"

definition collectPhase :: "world \<Rightarrow> world" where
  "collectPhase w =
     (let g = gridSize w;
          st = foldl (collect_cell g (upper_catalyser w))
                 (catalyser w, replicate g (replicate g 0)) (grid_cells g)
      in w\<lparr>catalyser := fst st,
           upper_catalyser :=
             map (\<lambda>x. map (\<lambda>y. min 2 (upper_catalyser w ! x ! y + snd st ! x ! y)) [0..<g])
               [0..<g]\<rparr>)"

text \<open>\<^verbatim>\<open>moveCore\<close>; \<open>r\<close> is its draw, and \<open>0 \<le> r < 1\<close> makes the index less than 8.\<close>

definition moves :: "(int \<times> int) list" where
  "moves = [(-1, -1), (0, -1), (1, -1), (-1, 0), (1, 0), (-1, 1), (0, 1), (1, 1)]"

definition moveCore :: "real \<Rightarrow> nat \<Rightarrow> core \<Rightarrow> core" where
  "moveCore r g c =
     (let move = moves ! nat \<lfloor>r * real (length moves)\<rfloor>
      in c\<lparr>core_x := (core_x c + fst move + int g) mod int g,
           core_y := (core_y c + snd move + int g) mod int g\<rparr>)"

text \<open>
  The body of the \<^verbatim>\<open>forEach\<close> of \<^verbatim>\<open>updateCores\<close> for one core. It works on the core, the
  lower catalyser and the energy list; \<open>tk\<close> and \<open>t\<close> are the tick and the temperature
  field of the step, \<open>r1\<close> and \<open>r2\<close> the draws of the delayed and of the final move. The
  three state tests are consecutive \<^verbatim>\<open>if\<close> statements, not alternatives.
\<close>

definition delayed_move :: "nat \<Rightarrow> int \<Rightarrow> real \<Rightarrow> core \<Rightarrow> core" where
  "delayed_move g tk r1 c =
     (case moveAfterTick c of
        Some m \<Rightarrow> if m \<noteq> 0 \<and> m \<le> tk then (moveCore r1 g c)\<lparr>moveAfterTick := None\<rparr> else c
      | None \<Rightarrow> c)"

definition new_energy :: "int \<Rightarrow> core \<Rightarrow> energy" where
  "new_energy tk c =
     \<lparr>en_x = core_x c, en_y = core_y c, createdAt = tk, active = True, coreId = core_id c\<rparr>"

definition core_step ::
  "nat \<Rightarrow> int \<Rightarrow> real list list \<Rightarrow> real \<Rightarrow> real
     \<Rightarrow> core \<times> real list list \<times> energy list \<Rightarrow> core \<times> real list list \<times> energy list" where
  "core_step g tk t r1 r2 st =
     (let c1 = delayed_move g tk r1 (fst st); low = fst (snd st); es = snd (snd st);
          catalyserAmount = cell low (core_x c1) (core_y c1);
          temp = cell t (core_x c1) (core_y c1);
          c2 = (if state c1 = dormant \<and> 0.2 < catalyserAmount
                then c1\<lparr>state := incubated, incubationTime := tk, consecutiveHighTemp := 0\<rparr>
                else c1);
          c3 = (if state c2 = incubated
                then if 0.2 < temp
                     then if 5 \<le> consecutiveHighTemp c2 + 1
                          then c2\<lparr>consecutiveHighTemp := consecutiveHighTemp c2 + 1,
                                  state := bloomed, bloomTime := tk\<rparr>
                          else c2\<lparr>consecutiveHighTemp := consecutiveHighTemp c2 + 1\<rparr>
                     else c2\<lparr>consecutiveHighTemp := 0\<rparr>
                else c2);
          es3 = (if state c2 = incubated \<and> 0.2 < temp \<and> 5 \<le> consecutiveHighTemp c2 + 1
                 then es @ [new_energy tk c2] else es)
      in if state c3 = bloomed \<and> 5 \<le> tk - bloomTime c3
         then (moveCore r2 g (c3\<lparr>state := dormant, consecutiveHighTemp := 0\<rparr>),
               set_cell low (nat (core_x c3)) (nat (core_y c3))
                 (cell low (core_x c3) (core_y c3) + 0.1),
               es3)
         else (c3, low, es3))"

text \<open>The \<^verbatim>\<open>forEach\<close> itself; \<open>i\<close> is the index of the first core of the list.\<close>

fun cores_loop ::
  "nat \<Rightarrow> int \<Rightarrow> real list list \<Rightarrow> (nat \<Rightarrow> real) \<Rightarrow> (nat \<Rightarrow> real) \<Rightarrow> nat \<Rightarrow> core list
     \<Rightarrow> real list list \<times> energy list \<Rightarrow> core list \<times> real list list \<times> energy list" where
  "cores_loop g tk t r1 r2 i [] st = ([], st)"
| "cores_loop g tk t r1 r2 i (c # cs) st =
     (let a = core_step g tk t (r1 i) (r2 i) (c, st);
          b = cores_loop g tk t r1 r2 (Suc i) cs (snd a)
      in (fst a # fst b, snd b))"

definition expired :: "int \<Rightarrow> energy \<Rightarrow> bool" where
  "expired tk e \<longleftrightarrow> 5 \<le> tk - createdAt e"

definition updateCores :: "(nat \<Rightarrow> real) \<Rightarrow> (nat \<Rightarrow> real) \<Rightarrow> world \<Rightarrow> world" where
  "updateCores r1 r2 w =
     (let res = cores_loop (gridSize w) (tick w) (temperature w) r1 r2 0 (cores w)
                  (catalyser w, energies w)
      in w\<lparr>cores := fst res, catalyser := fst (snd res),
           energies := filter (\<lambda>e. \<not> expired (tick w) e) (snd (snd res))\<rparr>)"

text \<open>The draws of one \<^verbatim>\<open>step()\<close>: the diffusion noise by cell, the two moves by core index.\<close>

record step_draws =
  shift_noise :: "nat \<Rightarrow> nat \<Rightarrow> real"
  move_early :: "nat \<Rightarrow> real"
  move_late :: "nat \<Rightarrow> real"

definition unit_step_draws :: "step_draws \<Rightarrow> bool" where
  "unit_step_draws d \<longleftrightarrow>
     (\<forall>x y. unit_draw (shift_noise d x y)) \<and> (\<forall>i. unit_draw (move_early d i))
     \<and> (\<forall>i. unit_draw (move_late d i))"

text \<open>
  \<^verbatim>\<open>step()\<close>: the temperature shift, then the phase that is due, then \<^verbatim>\<open>updateCores()\<close>.
  \<open>before_cores\<close> is the world at the moment \<^verbatim>\<open>updateCores()\<close> is called.
\<close>

definition before_cores :: "step_draws \<Rightarrow> world \<Rightarrow> world" where
  "before_cores d w =
     (let w1 = shiftTemperature (shift_noise d) w
      in if phase w1 = emit then (emitPhase w1)\<lparr>phase := collect\<rparr>
         else (collectPhase w1)\<lparr>phase := emit, tick := tick w1 + 1\<rparr>)"

definition step :: "step_draws \<Rightarrow> world \<Rightarrow> world" where
  "step d w = updateCores (move_early d) (move_late d) (before_cores d w)"

text \<open>
  Two readings of the loop of \<^verbatim>\<open>updateCores\<close> inside a step: the lower catalyser and the
  energy list as the loop has left them when it reaches the core of index \<open>i\<close>, and that
  core after its delayed move, which is where the loop reads the two fields for it.
\<close>

definition seen_by :: "step_draws \<Rightarrow> world \<Rightarrow> nat \<Rightarrow> real list list \<times> energy list" where
  "seen_by d w i =
     (let w2 = before_cores d w
      in snd (cores_loop (gridSize w2) (tick w2) (temperature w2) (move_early d) (move_late d) 0
                (take i (cores w2)) (catalyser w2, energies w2)))"

definition core_at_read :: "step_draws \<Rightarrow> world \<Rightarrow> nat \<Rightarrow> core" where
  "core_at_read d w i =
     delayed_move (gridSize w) (tick (before_cores d w)) (move_early d i) (cores w ! i)"

text \<open>After a step: the temperature at the cell of the core of index \<open>i\<close> exceeds 0.2.\<close>

definition warm_at :: "world \<Rightarrow> nat \<Rightarrow> bool" where
  "warm_at w i \<longleftrightarrow> 0.2 < cell (temperature w) (core_x (cores w ! i)) (core_y (cores w ! i))"

section \<open>WorldPhysics: well-formed and reachable worlds\<close>

text \<open>
  A grid of the world is a \<open>gridSize\<close> by \<open>gridSize\<close> array. \<open>grid_all g P\<close> says that a
  grid has this shape and that every cell satisfies \<open>P\<close>.
\<close>

definition grid_all :: "nat \<Rightarrow> (real \<Rightarrow> bool) \<Rightarrow> real list list \<Rightarrow> bool" where
  "grid_all g P G \<longleftrightarrow> length G = g \<and> (\<forall>x<g. length (G ! x) = g \<and> (\<forall>y<g. P (G ! x ! y)))"

definition core_in :: "nat \<Rightarrow> core \<Rightarrow> bool" where
  "core_in g c \<longleftrightarrow> 0 \<le> core_x c \<and> core_x c < int g \<and> 0 \<le> core_y c \<and> core_y c < int g"

text \<open>
  The invariant of the class: the grid is not empty, the three fields have the shape of
  the grid and their values lie in their ranges, and every core sits on a cell. On such a
  world every array access of \<^verbatim>\<open>step\<close> is in range, which is what makes the list accesses
  of the model those of the program.
\<close>

definition wf_world :: "world \<Rightarrow> bool" where
  "wf_world w \<longleftrightarrow>
     0 < gridSize w
     \<and> grid_all (gridSize w) (\<lambda>v. 0 \<le> v \<and> v \<le> 1) (temperature w)
     \<and> grid_all (gridSize w) (\<lambda>v. 0 \<le> v) (catalyser w)
     \<and> grid_all (gridSize w) (\<lambda>v. 0 \<le> v \<and> v \<le> 2) (upper_catalyser w)
     \<and> (\<forall>c\<in>set (cores w). core_in (gridSize w) c)"

text \<open>
  The worlds the program can be in: a freshly constructed or reset world, then any
  sequence of \<^verbatim>\<open>step()\<close> calls, with \<^verbatim>\<open>consumeEnergy\<close> calls of the agents in between. A
  world of grid size 0 is left out: its first \<^verbatim>\<open>step()\<close> reads \<^verbatim>\<open>catalyser[0][0]\<close> of an
  empty array for the first core and raises a \<^verbatim>\<open>TypeError\<close>.
\<close>

inductive reachable :: "world \<Rightarrow> bool" where
  constructed: "0 < g \<Longrightarrow> unit_world_draws d \<Longrightarrow> reachable (WorldPhysics d g)"
| was_reset: "reachable w \<Longrightarrow> unit_world_draws d \<Longrightarrow> reachable (reset d w)"
| stepped: "reachable w \<Longrightarrow> unit_step_draws d \<Longrightarrow> reachable (step d w)"
| consumed: "reachable w \<Longrightarrow> reachable (snd (consumeEnergy x y w))"

section \<open>NeuralNetwork: numbers and data\<close>

text \<open>
  A parameter or an activation of a network is a JavaScript number: \<^verbatim>\<open>NaN\<close>, one of the
  two infinities, or a finite number, which is a real here. An operation on finite numbers
  overflows to the infinity of its sign exactly when its exact result has a magnitude of at
  least \<open>2^1024 - 2^970\<close>, the least real that rounds to \<^verbatim>\<open>Infinity\<close>; a smaller result is
  kept exactly, so the rounding of finite results, underflow and the sign of zero are not
  modelled.
\<close>

datatype num = NaN | PosInf | NegInf | is_Fin: Fin real

definition overflow_at :: real where
  "overflow_at = 2 ^ 1024 - 2 ^ 970"

definition fin :: "real \<Rightarrow> num" where
  "fin r = (if overflow_at \<le> r then PosInf else if r \<le> - overflow_at then NegInf else Fin r)"

text \<open>
  Reading an array beyond its length gives \<^verbatim>\<open>undefined\<close>, which arithmetic and
  \<^verbatim>\<open>Math.max\<close> turn into \<^verbatim>\<open>NaN\<close>; \<open>rd\<close> is such a read.
\<close>

definition rd :: "num list \<Rightarrow> nat \<Rightarrow> num" where
  "rd xs k = (if k < length xs then xs ! k else NaN)"

text \<open>Addition, subtraction and multiplication, as IEEE 754 has them.\<close>

fun nadd :: "num \<Rightarrow> num \<Rightarrow> num" where
  "nadd (Fin x) (Fin y) = fin (x + y)"
| "nadd NaN b = NaN"
| "nadd a NaN = NaN"
| "nadd PosInf NegInf = NaN"
| "nadd NegInf PosInf = NaN"
| "nadd PosInf b = PosInf"
| "nadd a PosInf = PosInf"
| "nadd NegInf b = NegInf"
| "nadd a NegInf = NegInf"

fun nneg :: "num \<Rightarrow> num" where
  "nneg NaN = NaN"
| "nneg PosInf = NegInf"
| "nneg NegInf = PosInf"
| "nneg (Fin x) = Fin (- x)"

definition nsub :: "num \<Rightarrow> num \<Rightarrow> num" where
  "nsub a b = nadd a (nneg b)"

text \<open>The infinity of the sign of a real that is not 0, and of the opposite sign.\<close>

definition inf_of :: "real \<Rightarrow> num" where
  "inf_of r = (if 0 < r then PosInf else NegInf)"

fun nmul :: "num \<Rightarrow> num \<Rightarrow> num" where
  "nmul (Fin x) (Fin y) = fin (x * y)"
| "nmul NaN b = NaN"
| "nmul a NaN = NaN"
| "nmul PosInf (Fin y) = (if y = 0 then NaN else inf_of y)"
| "nmul NegInf (Fin y) = (if y = 0 then NaN else inf_of (- y))"
| "nmul (Fin x) PosInf = (if x = 0 then NaN else inf_of x)"
| "nmul (Fin x) NegInf = (if x = 0 then NaN else inf_of (- x))"
| "nmul PosInf PosInf = PosInf"
| "nmul PosInf NegInf = NegInf"
| "nmul NegInf PosInf = NegInf"
| "nmul NegInf NegInf = PosInf"

text \<open>
  Division. A zero is the positive zero, the only zero a sum of exponentials can be: a
  finite number that is not 0 divided by it is the infinity of its sign, and \<open>0 / 0\<close> is
  \<^verbatim>\<open>NaN\<close>.
\<close>

fun ndiv :: "num \<Rightarrow> num \<Rightarrow> num" where
  "ndiv (Fin x) (Fin y) = (if y = 0 then (if x = 0 then NaN else inf_of x) else fin (x / y))"
| "ndiv NaN b = NaN"
| "ndiv a NaN = NaN"
| "ndiv (Fin x) b = Fin 0"
| "ndiv PosInf (Fin y) = (if 0 \<le> y then PosInf else NegInf)"
| "ndiv NegInf (Fin y) = (if 0 \<le> y then NegInf else PosInf)"
| "ndiv a b = NaN"

text \<open>\<^verbatim>\<open>Math.max(a, b)\<close> and \<^verbatim>\<open>Math.exp(a)\<close>.\<close>

fun nmax :: "num \<Rightarrow> num \<Rightarrow> num" where
  "nmax (Fin x) (Fin y) = Fin (max x y)"
| "nmax NaN b = NaN"
| "nmax a NaN = NaN"
| "nmax PosInf b = PosInf"
| "nmax a PosInf = PosInf"
| "nmax NegInf b = b"
| "nmax a NegInf = a"

fun nexp :: "num \<Rightarrow> num" where
  "nexp NaN = NaN"
| "nexp PosInf = PosInf"
| "nexp NegInf = Fin 0"
| "nexp (Fin x) = fin (exp x)"

record layer =
  weights :: "num list list"
  biases :: "num list"

text \<open>
  A network is its list of layers. The cache of the Gaussian generator
  (\<^verbatim>\<open>hasSpareGaussian\<close>, \<^verbatim>\<open>spareGaussian\<close>) belongs to the generator, whose samples are inputs
  of the model: \<open>init_w l j k\<close> and \<open>init_b l j\<close> are the values \<^verbatim>\<open>gaussianRandom()\<close> returns
  for the weight \<open>(j, k)\<close> and the bias \<open>j\<close> of layer \<open>l\<close> of a new network.
\<close>

record network =
  layers :: "layer list"

record init_draws =
  init_w :: "nat \<Rightarrow> nat \<Rightarrow> nat \<Rightarrow> real"
  init_b :: "nat \<Rightarrow> nat \<Rightarrow> real"

datatype error = TypeError | InvalidData

section \<open>NeuralNetwork: construction and the forward pass\<close>

text \<open>
  \<^verbatim>\<open>randomMatrix\<close> and \<^verbatim>\<open>randomArray\<close>. A sample of \<^verbatim>\<open>gaussianRandom()\<close> is a finite number:
  the two loops of the generator wait for uniform draws that are not 0. The sizes are
  lengths that \<^verbatim>\<open>Array\<close> accepts, natural numbers below \<open>2^32\<close>; for any other size the
  source raises a \<^verbatim>\<open>RangeError\<close>, and the definitions are not about such sizes.
\<close>

definition randomMatrix :: "(nat \<Rightarrow> nat \<Rightarrow> real) \<Rightarrow> nat \<Rightarrow> nat \<Rightarrow> real \<Rightarrow> num list list" where
  "randomMatrix gauss rows cols std =
     map (\<lambda>j. map (\<lambda>k. nmul (Fin (gauss j k)) (Fin std)) [0..<cols]) [0..<rows]"

definition randomArray :: "(nat \<Rightarrow> real) \<Rightarrow> nat \<Rightarrow> real \<Rightarrow> num list" where
  "randomArray gauss n std = map (\<lambda>j. nmul (Fin (gauss j)) (Fin std)) [0..<n]"

definition NeuralNetwork :: "init_draws \<Rightarrow> nat \<Rightarrow> nat list \<Rightarrow> nat \<Rightarrow> network" where
  "NeuralNetwork g inputSize hiddenSizes outputSize =
     (let sizes = inputSize # hiddenSizes @ [outputSize]
      in \<lparr>layers =
            map (\<lambda>i. \<lparr>weights = randomMatrix (init_w g (i - 1)) (sizes ! i) (sizes ! (i - 1)) 0.1,
                      biases = randomArray (init_b g (i - 1)) (sizes ! i) 0.1\<rparr>)
              [1..<length sizes]\<rparr>)"

text \<open>
  The inner loops of \<^verbatim>\<open>forward\<close> for the neuron \<open>j\<close> of a layer: \<^verbatim>\<open>sum\<close> starts as
  \<^verbatim>\<open>layer.biases[j]\<close> and adds \<^verbatim>\<open>layer.weights[j][k] * activation[k]\<close> for every \<open>k\<close> below
  the length of the activation.
\<close>

definition neuron_sum :: "layer \<Rightarrow> num list \<Rightarrow> nat \<Rightarrow> num" where
  "neuron_sum l a j =
     foldl (\<lambda>s k. nadd s (nmul (rd (weights l ! j) k) (a ! k))) (rd (biases l) j) [0..<length a]"

definition relu :: "num \<Rightarrow> num" where
  "relu s = nmax (Fin 0) s"

definition layer_out :: "bool \<Rightarrow> layer \<Rightarrow> num list \<Rightarrow> num list" where
  "layer_out is_last l a =
     map (\<lambda>j. if is_last then neuron_sum l a j else relu (neuron_sum l a j))
       [0..<length (weights l)]"

text \<open>The loop over the layers; the last layer (\<^verbatim>\<open>i === this.layers.length - 1\<close>) stays linear.\<close>

fun forward_layers :: "layer list \<Rightarrow> num list \<Rightarrow> num list" where
  "forward_layers [] a = a"
| "forward_layers [l] a = layer_out True l a"
| "forward_layers (l # m # ls) a = forward_layers (m # ls) (layer_out False l a)"

text \<open>
  \<^verbatim>\<open>softmax\<close>. \<^verbatim>\<open>Math.max(...arr)\<close> is \<^verbatim>\<open>-Infinity\<close> for an empty array, \<^verbatim>\<open>NaN\<close> when an
  element is \<^verbatim>\<open>NaN\<close>, and the largest element otherwise.
\<close>

definition math_max :: "num list \<Rightarrow> num" where
  "math_max arr = foldl nmax NegInf arr"

definition softmax :: "num list \<Rightarrow> num list" where
  "softmax arr =
     (let mx = math_max arr;
          exps = map (\<lambda>x. nexp (nsub x mx)) arr;
          sumExps = foldl nadd (Fin 0) exps
      in map (\<lambda>x. ndiv x sumExps) exps)"

definition forward :: "network \<Rightarrow> num list \<Rightarrow> num list" where
  "forward net input = softmax (forward_layers (layers net) input)"

section \<open>NeuralNetwork: architectures\<close>

text \<open>
  A layer from \<open>n\<close> inputs to \<open>m\<close> neurons: \<open>m\<close> rows of \<open>n\<close> weights and \<open>m\<close> biases, all
  of them finite numbers. A network has the sizes \<open>[n0, n1, ..., nk]\<close> when its \<open>k\<close> layers have
  these sizes one after the other; the constructor called with
  \<^verbatim>\<open>(542, [256, 128, 64], 5)\<close> builds the sizes \<open>[542, 256, 128, 64, 5]\<close>.
\<close>

definition layer_ok :: "nat \<Rightarrow> nat \<Rightarrow> layer \<Rightarrow> bool" where
  "layer_ok n m l \<longleftrightarrow>
     length (weights l) = m
     \<and> list_all (\<lambda>row. length row = n \<and> list_all is_Fin row) (weights l)
     \<and> length (biases l) = m \<and> list_all is_Fin (biases l)"

fun net_ok :: "nat list \<Rightarrow> layer list \<Rightarrow> bool" where
  "net_ok (n # m # ns) (l # ls) \<longleftrightarrow> layer_ok n m l \<and> net_ok (m # ns) ls"
| "net_ok [n] [] \<longleftrightarrow> True"
| "net_ok _ _ \<longleftrightarrow> False"

text \<open>
  Bounds. A number is within the bound \<open>B\<close> when it is finite with a magnitude of at most
  \<open>B\<close>; a layer is when all its weights and biases are.
\<close>

definition within_bound :: "real \<Rightarrow> num \<Rightarrow> bool" where
  "within_bound B v = (case v of Fin x \<Rightarrow> \<bar>x\<bar> \<le> B | _ \<Rightarrow> False)"

definition layer_within :: "real \<Rightarrow> layer \<Rightarrow> bool" where
  "layer_within B l \<longleftrightarrow>
     list_all (list_all (within_bound B)) (weights l) \<and> list_all (within_bound B) (biases l)"

section \<open>NeuralNetwork: mutation, cloning, the output nudge\<close>

text \<open>
  \<^verbatim>\<open>mutate\<close>: for every parameter one uniform draw decides, and one Gaussian sample is
  added when it does. The draws are indexed by layer, row and column.
\<close>

record mutate_draws =
  mut_u_w :: "nat \<Rightarrow> nat \<Rightarrow> nat \<Rightarrow> real"
  mut_g_w :: "nat \<Rightarrow> nat \<Rightarrow> nat \<Rightarrow> real"
  mut_u_b :: "nat \<Rightarrow> nat \<Rightarrow> real"
  mut_g_b :: "nat \<Rightarrow> nat \<Rightarrow> real"

definition mutate :: "mutate_draws \<Rightarrow> real \<Rightarrow> real \<Rightarrow> network \<Rightarrow> network" where
  "mutate m mutationRate mutationStrength net =
     \<lparr>layers =
        map (\<lambda>l. \<lparr>weights =
                    map (\<lambda>j. map (\<lambda>k. if mut_u_w m l j k < mutationRate
                                       then nadd (weights (layers net ! l) ! j ! k)
                                              (nmul (Fin (mut_g_w m l j k)) (Fin mutationStrength))
                                       else weights (layers net ! l) ! j ! k)
                               [0..<length (weights (layers net ! l) ! j)])
                      [0..<length (weights (layers net ! l))],
                  biases =
                    map (\<lambda>j. if mut_u_b m l j < mutationRate
                              then nadd (biases (layers net ! l) ! j)
                                     (nmul (Fin (mut_g_b m l j)) (Fin mutationStrength))
                              else biases (layers net ! l) ! j)
                      [0..<length (biases (layers net ! l))]\<rparr>)
          [0..<length (layers net)]\<rparr>"

definition copy_layer :: "layer \<Rightarrow> layer" where
  "copy_layer l = \<lparr>weights = map (\<lambda>row. map (\<lambda>v. v) row) (weights l), biases = map (\<lambda>v. v) (biases l)\<rparr>"

definition clone_network :: "network \<Rightarrow> network" where
  "clone_network net = \<lparr>layers = map copy_layer (layers net)\<rparr>"

text \<open>
  \<^verbatim>\<open>applyREINFORCE(input, actionIndex, reward, learningRate)\<close>. With no layer, or with
  fewer than \<open>actionIndex + 1\<close> rows in the output layer, the property access on
  \<^verbatim>\<open>undefined\<close> raises a \<^verbatim>\<open>TypeError\<close>. The bias is written even when the array of biases
  is too short, which extends it with holes. The reward and the learning rate are finite
  numbers.
\<close>

definition write_at :: "num list \<Rightarrow> nat \<Rightarrow> num \<Rightarrow> num list" where
  "write_at xs i v =
     (if i < length xs then xs[i := v] else xs @ replicate (i - length xs) NaN @ [v])"

definition applyREINFORCE :: "num list \<Rightarrow> nat \<Rightarrow> real \<Rightarrow> real \<Rightarrow> network \<Rightarrow> error + network" where
  "applyREINFORCE input actionIndex reward learningRate net =
     (if \<bar>reward\<bar> < 0.01 then Inr net
      else if layers net = [] then Inl TypeError
      else let outputLayer = last (layers net)
           in if length (weights outputLayer) \<le> actionIndex then Inl TypeError
              else let row = weights outputLayer ! actionIndex;
                       row' = map (\<lambda>i. nadd (row ! i)
                                             (nmul (nmul (Fin learningRate) (Fin reward)) (rd input i)))
                                [0..<length row];
                       outputLayer' =
                         \<lparr>weights = (weights outputLayer)[actionIndex := row'],
                          biases = write_at (biases outputLayer) actionIndex
                                     (nadd (rd (biases outputLayer) actionIndex)
                                        (nmul (Fin learningRate) (Fin reward)))\<rparr>
                   in Inr (net\<lparr>layers := butlast (layers net) @ [outputLayer']\<rparr>))"

section \<open>NeuralNetwork: serialisation\<close>

record layerInfo =
  neurons :: nat
  inputs :: nat
  info_weights :: nat
  info_biases :: nat
  parameters :: nat

record architecture =
  arch_layers :: nat
  arch_structure :: "layerInfo list"
  totalParameters :: nat

text \<open>
  Serialised data. The two properties \<^verbatim>\<open>deserialize\<close> tests for are optional; a
  serialised layer is a pair of arrays like a layer.
\<close>

record serialized =
  ser_layers :: "layer list option"
  ser_architecture :: "architecture option"
  version :: string
  serializedAt :: int

text \<open>
  \<^verbatim>\<open>getArchitecture\<close> reads \<^verbatim>\<open>layer.weights[0].length\<close>, which raises a \<^verbatim>\<open>TypeError\<close> for
  a layer without neurons.
\<close>

definition layer_info :: "layer \<Rightarrow> error + layerInfo" where
  "layer_info l =
     (if weights l = [] then Inl TypeError
      else Inr \<lparr>neurons = length (weights l), inputs = length (weights l ! 0),
                info_weights = length (weights l) * length (weights l ! 0),
                info_biases = length (biases l),
                parameters = length (weights l) * length (weights l ! 0) + length (biases l)\<rparr>)"

fun architecture_loop :: "layer list \<Rightarrow> architecture \<Rightarrow> error + architecture" where
  "architecture_loop [] a = Inr a"
| "architecture_loop (l # ls) a =
     (case layer_info l of
        Inl e \<Rightarrow> Inl e
      | Inr li \<Rightarrow>
          architecture_loop ls
            (a\<lparr>totalParameters := totalParameters a + parameters li,
               arch_structure := arch_structure a @ [li]\<rparr>))"

definition getArchitecture :: "network \<Rightarrow> error + architecture" where
  "getArchitecture net =
     architecture_loop (layers net)
       \<lparr>arch_layers = length (layers net), arch_structure = [], totalParameters = 0\<rparr>"

text \<open>\<open>now\<close> is the value of \<^verbatim>\<open>Date.now()\<close>.\<close>

definition serialize :: "int \<Rightarrow> network \<Rightarrow> error + serialized" where
  "serialize now net =
     (case getArchitecture net of
        Inl e \<Rightarrow> Inl e
      | Inr a \<Rightarrow>
          Inr \<lparr>ser_layers = Some (map (\<lambda>l. \<lparr>weights = weights l, biases = biases l\<rparr>) (layers net)),
               ser_architecture = Some a, version = ''1.0'', serializedAt = now\<rparr>)"

text \<open>
  \<^verbatim>\<open>deserialize\<close>. The only test is that both properties are there. An empty
  \<^verbatim>\<open>structure\<close> raises a \<^verbatim>\<open>TypeError\<close> at \<^verbatim>\<open>structure[0].inputs\<close>. The \<^verbatim>\<open>forEach\<close> then
  overwrites the layers of a new network of the declared sizes, for the indices the new
  network has. The definition is for data of the types above (layers that are pairs of
  arrays, an architecture with a structure) and for declared sizes that the constructor
  accepts; on other data the source raises a \<^verbatim>\<open>TypeError\<close> or a \<^verbatim>\<open>RangeError\<close>.
\<close>

definition replace_layer :: "layer list \<Rightarrow> layer list \<Rightarrow> nat \<Rightarrow> layer list" where
  "replace_layer dat ls index =
     (if index < length ls then ls[index := copy_layer (dat ! index)] else ls)"

definition deserialize :: "init_draws \<Rightarrow> serialized \<Rightarrow> error + network" where
  "deserialize g dat =
     (case ser_layers dat of
        None \<Rightarrow> Inl InvalidData
      | Some ls \<Rightarrow>
          (case ser_architecture dat of
             None \<Rightarrow> Inl InvalidData
           | Some a \<Rightarrow>
               if arch_structure a = [] then Inl TypeError
               else let inputSize = inputs (arch_structure a ! 0);
                        hiddenSizes = map neurons (butlast (arch_structure a));
                        outputSize = neurons (last (arch_structure a));
                        net = NeuralNetwork g inputSize hiddenSizes outputSize
                    in Inr (net\<lparr>layers := foldl (replace_layer ls) (layers net) [0..<length ls]\<rparr>)))"

section \<open>ConsciousEntity: data\<close>

text \<open>A point of the vision: the reading of the world with the offset it was taken at.\<close>

record vision_point = props +
  relativeX :: int
  relativeY :: int
  vp_distance :: int

text \<open>An entry of the memory.\<close>

record experience =
  mem_tick :: int
  mem_x :: int
  mem_y :: int
  mem_field1 :: real
  mem_field2 :: real
  mem_field3 :: real
  mem_field4 :: real
  mem_field5 :: real
  mem_confidence :: real
  mem_energy :: real
  mem_action :: string
  mem_outcome :: string
  mem_age :: nat

text \<open>An entry of the trailing reward window \<^verbatim>\<open>recentOutcomes\<close>.\<close>

record outcome =
  out_action :: nat
  reward :: real
  out_tick :: int

text \<open>
  The entity. Its \<^verbatim>\<open>id\<close> is a string computed from one draw; the model keeps the draw.
\<close>

record entity =
  ent_x :: int
  ent_y :: int
  ent_gridSize :: nat
  energy :: real
  age :: nat
  totalEnergyGained :: real
  fitness :: real
  brain :: network
  vision :: "vision_point list"
  memory :: "experience list"
  memoryCapacity :: nat
  recentOutcomes :: "outcome list"
  lastTotalEnergy :: real
  lastAction :: string
  lastActionIndex :: nat
  ent_id :: real

record birth_draws =
  born_x :: real
  born_y :: real
  born_id :: real
  born_brain :: init_draws

text \<open>
  The constructor \<^verbatim>\<open>ConsciousEntity(x, y, brain, gridSize)\<close>; \<open>None\<close> is \<^verbatim>\<open>null\<close>. The input
  size of a new brain is \<open>81 * 5 + 81 + 6 + 50\<close>.
\<close>

definition ConsciousEntity ::
  "birth_draws \<Rightarrow> int option \<Rightarrow> int option \<Rightarrow> network option \<Rightarrow> nat \<Rightarrow> entity" where
  "ConsciousEntity b x y br g =
     \<lparr>ent_x = (case x of Some v \<Rightarrow> v | None \<Rightarrow> \<lfloor>born_x b * real g\<rfloor>),
      ent_y = (case y of Some v \<Rightarrow> v | None \<Rightarrow> \<lfloor>born_y b * real g\<rfloor>),
      ent_gridSize = g, energy = 100, age = 0, totalEnergyGained = 0, fitness = 0,
      brain = (case br of Some n \<Rightarrow> n
               | None \<Rightarrow> NeuralNetwork (born_brain b) (81 * 5 + 81 + 6 + 50) [256, 128, 64] 5),
      vision = [], memory = [], memoryCapacity = 50, recentOutcomes = [],
      lastTotalEnergy = 0, lastAction = ''unknown'', lastActionIndex = 4, ent_id = born_id b\<rparr>"

section \<open>ConsciousEntity: perception and memory\<close>

text \<open>The 81 offsets of the vision in the order of the two loops.\<close>

definition vision_offsets :: "(int \<times> int) list" where
  "vision_offsets = concat (map (\<lambda>dx. map (\<lambda>dy. (dx, dy)) [-4..4]) [-4..4])"

text \<open>\<^verbatim>\<open>calculateLifeForce(x, y, otherEntities)\<close>; \<open>now\<close> is the value of \<^verbatim>\<open>Date.now()\<close>.\<close>

definition nearby :: "entity \<Rightarrow> int \<Rightarrow> int \<Rightarrow> entity \<Rightarrow> bool" where
  "nearby e x y other \<longleftrightarrow>
     \<not> energy other \<le> 0 \<and> \<not> (ent_x other = ent_x e \<and> ent_y other = ent_y e)
     \<and> \<bar>ent_x other - x\<bar> + \<bar>ent_y other - y\<bar> \<le> 2"

definition calculateLifeForce :: "real \<Rightarrow> entity \<Rightarrow> int \<Rightarrow> int \<Rightarrow> entity list \<Rightarrow> real" where
  "calculateLifeForce now e x y otherEntities =
     (if x < 0 \<or> int (ent_gridSize e) \<le> x \<or> y < 0 \<or> int (ent_gridSize e) \<le> y then 0
      else let nearbyEntities = filter (nearby e x y) otherEntities
           in if nearbyEntities = [] then 0
              else let totalInfluence =
                         foldl (\<lambda>s other.
                                   s + (energy other / 100.0)
                                       * (1.0 / (1 + real_of_int (\<bar>ent_x other - x\<bar>
                                                                   + \<bar>ent_y other - y\<bar>) * 0.5)))
                           0 nearbyEntities
                   in clamp01 (min 0.8 (0.2 * real (length nearbyEntities))
                               + totalInfluence * 0.2
                               + sin ((real_of_int (x * y) + now * 0.001) * 0.1) * 0.05))"

text \<open>
  \<^verbatim>\<open>updateVision\<close>: for the point of index \<open>p\<close>, \<open>vis_noise d p\<close> are the draws of the
  reading and \<open>vis_now d p\<close> is the clock of the life force.
\<close>

record vision_draws =
  vis_noise :: "nat \<Rightarrow> nat \<Rightarrow> real"
  vis_now :: "nat \<Rightarrow> real"

definition look :: "vision_draws \<Rightarrow> world \<Rightarrow> entity list \<Rightarrow> entity \<Rightarrow> nat \<Rightarrow> vision_point" where
  "look d w otherEntities e p =
     (let dx = fst (vision_offsets ! p); dy = snd (vision_offsets ! p);
          x = ent_x e + dx; y = ent_y e + dy;
          dist = \<bar>dx\<bar> + \<bar>dy\<bar>;
          properties = getRawPhysicalProperties (vis_noise d p) w x y dist (energy e)
      in \<lparr>field1 = field1 properties, field2 = field2 properties, field3 = field3 properties,
          field4 = field4 properties,
          field5 = calculateLifeForce (vis_now d p) e x y otherEntities,
          confidence = confidence properties,
          relativeX = dx, relativeY = dy, vp_distance = dist\<rparr>)"

definition updateVision :: "vision_draws \<Rightarrow> world \<Rightarrow> entity list \<Rightarrow> entity \<Rightarrow> entity" where
  "updateVision d w otherEntities e =
     e\<lparr>vision := map (look d w otherEntities e) [0..<length vision_offsets]\<rparr>"

text \<open>
  \<^verbatim>\<open>addMemory\<close>; the action and the outcome come with the observation, and an empty string
  there gives way to the default.
\<close>

definition addMemory :: "vision_point \<Rightarrow> string \<Rightarrow> string \<Rightarrow> int \<Rightarrow> entity \<Rightarrow> entity" where
  "addMemory observation action outc tk e =
     (let m = \<lparr>mem_tick = tk, mem_x = ent_x e, mem_y = ent_y e,
                mem_field1 = field1 observation, mem_field2 = field2 observation,
                mem_field3 = field3 observation, mem_field4 = field4 observation,
                mem_field5 = field5 observation, mem_confidence = confidence observation,
                mem_energy = energy e,
                mem_action = (if action = [] then lastAction e else action),
                mem_outcome = (if outc = [] then ''none'' else outc),
                mem_age = age e\<rparr>;
          mem = memory e @ [m]
      in e\<lparr>memory := (if memoryCapacity e < length mem then tl mem else mem)\<rparr>)"

text \<open>\<^verbatim>\<open>getMemorySummary\<close>: ten values for each of the last five memories, newest first.\<close>

definition encode_memory :: "real \<Rightarrow> entity \<Rightarrow> experience \<Rightarrow> num list" where
  "encode_memory now e mem =
     [Fin ((now - real_of_int (mem_tick mem)) / 1000.0),
      ndiv (Fin (real_of_int \<bar>ent_x e - mem_x mem\<bar>)) (Fin (real (ent_gridSize e))),
      ndiv (Fin (real_of_int \<bar>ent_y e - mem_y mem\<bar>)) (Fin (real (ent_gridSize e))),
      Fin (mem_field1 mem), Fin (mem_field2 mem), Fin (mem_field3 mem), Fin (mem_field4 mem),
      Fin (mem_field5 mem), Fin (mem_confidence mem),
      Fin (if mem_outcome mem = ''energy_gained'' then 1.0
           else if mem_outcome mem = ''energy_lost'' then -1.0 else 0.0)]"

definition getMemorySummary :: "real \<Rightarrow> entity \<Rightarrow> num list" where
  "getMemorySummary now e =
     (if memory e = [] then replicate 50 (Fin 0)
      else let recentMemories = drop (length (memory e) - 5) (memory e);
               written = concat (map (\<lambda>i. encode_memory now e
                                             (recentMemories ! (length recentMemories - 1 - i)))
                                   [0..<length recentMemories])
           in written @ replicate (50 - length written) (Fin 0))"

text \<open>
  \<^verbatim>\<open>getCellInput(tick)\<close>, the input of the network. A field is a real here, so
  \<^verbatim>\<open>field || 0\<close> is the field. The remainder \<^verbatim>\<open>tick % 100\<close> has the sign of the tick. The
  two positions are divided by the size of the grid, which may be 0.
\<close>

definition js_rem :: "int \<Rightarrow> int \<Rightarrow> int" where
  "js_rem a b = (if 0 \<le> a then a mod \<bar>b\<bar> else - ((- a) mod \<bar>b\<bar>))"

definition getCellInput :: "real \<Rightarrow> int \<Rightarrow> entity \<Rightarrow> num list" where
  "getCellInput now tk e =
     (let cyclePosition = real_of_int (js_rem tk 100) / 100.0
      in concat (map (\<lambda>v. [Fin (field1 v), Fin (field2 v), Fin (field3 v), Fin (field4 v),
                            Fin (field5 v)]) (vision e))
         @ map (\<lambda>v. Fin (confidence v)) (vision e)
         @ [Fin (energy e / 100.0),
            ndiv (Fin (real_of_int (ent_x e))) (Fin (real (ent_gridSize e))),
            ndiv (Fin (real_of_int (ent_y e))) (Fin (real (ent_gridSize e))),
            Fin (sin (2 * pi * cyclePosition)), Fin (cos (2 * pi * cyclePosition)),
            Fin cyclePosition]
         @ getMemorySummary now e)"

section \<open>ConsciousEntity: decision, learning, action\<close>

text \<open>
  The sampling loop of \<^verbatim>\<open>makeDecision\<close>: \<open>cum\<close> is \<^verbatim>\<open>cumProb\<close>, \<open>i\<close> the index of the head
  of the list. A comparison with \<^verbatim>\<open>NaN\<close> is false.
\<close>

fun less_num :: "real \<Rightarrow> num \<Rightarrow> bool" where
  "less_num r NaN \<longleftrightarrow> False"
| "less_num r PosInf \<longleftrightarrow> True"
| "less_num r NegInf \<longleftrightarrow> False"
| "less_num r (Fin v) \<longleftrightarrow> r < v"

fun sample :: "real \<Rightarrow> num \<Rightarrow> nat \<Rightarrow> num list \<Rightarrow> nat" where
  "sample rand cum i [] = 4"
| "sample rand cum i (pr # prs) =
     (if less_num rand (nadd cum pr) then i else sample rand (nadd cum pr) (Suc i) prs)"

definition makeDecision :: "real \<Rightarrow> real \<Rightarrow> int \<Rightarrow> entity \<Rightarrow> nat" where
  "makeDecision now rand tk e =
     (let input = getCellInput now tk e;
          actionProbs = forward (brain e) input
      in sample rand (Fin 0) 0 actionProbs)"

text \<open>
  \<^verbatim>\<open>executeAction\<close>; an index beyond the five moves raises a \<^verbatim>\<open>TypeError\<close> at \<^verbatim>\<open>move.x\<close>.
  The remainder \<^verbatim>\<open>%\<close> is \<open>js_rem\<close>, which has the sign of its left operand. On a grid of
  size 0 the source makes both coordinates \<^verbatim>\<open>NaN\<close>, which no integer stands for: the
  definition is for grids of a positive size, and keeps the sum as the coordinate
  otherwise.
\<close>

definition entity_moves :: "(int \<times> int) list" where
  "entity_moves = [(0, -1), (0, 1), (-1, 0), (1, 0), (0, 0)]"

definition actionNames :: "string list" where
  "actionNames = [''up'', ''down'', ''left'', ''right'', ''stay'']"

definition executeAction :: "nat \<Rightarrow> entity \<Rightarrow> error + entity" where
  "executeAction action e =
     (if length entity_moves \<le> action then Inl TypeError
      else let move = entity_moves ! action
           in Inr (e\<lparr>ent_x := js_rem (ent_x e + fst move + int (ent_gridSize e))
                                (int (ent_gridSize e)),
                     ent_y := js_rem (ent_y e + snd move + int (ent_gridSize e))
                                (int (ent_gridSize e)),
                     lastAction := actionNames ! action, lastActionIndex := action\<rparr>))"

text \<open>\<^verbatim>\<open>applyREINFORCELearning\<close>; the input is \<^verbatim>\<open>getCellInput(0)\<close>.\<close>

definition avgReward :: "outcome list \<Rightarrow> real" where
  "avgReward os = foldl (\<lambda>s ou. s + reward ou) 0 os / real (length os)"

definition applyREINFORCELearning :: "real \<Rightarrow> entity \<Rightarrow> error + entity" where
  "applyREINFORCELearning now e =
     (if recentOutcomes e = [] then Inr e
      else if \<bar>avgReward (recentOutcomes e)\<bar> < 0.01 then Inr e
      else case applyREINFORCE (getCellInput now 0 e) (lastActionIndex e)
                  (avgReward (recentOutcomes e)) 0.001 (brain e) of
             Inl err \<Rightarrow> Inl err
           | Inr b \<Rightarrow> Inr (e\<lparr>brain := b\<rparr>))"

section \<open>ConsciousEntity: update\<close>

record update_draws =
  vis :: vision_draws
  decide_now :: real
  pick :: real
  learn_now :: real

text \<open>
  The first part of \<^verbatim>\<open>update\<close>, statement by statement. The decay:
  \<^verbatim>\<open>this.energy -= 0.5; this.age++\<close>.
\<close>

definition decay :: "entity \<Rightarrow> entity" where
  "decay e = e\<lparr>energy := energy e - 0.5, age := age e + 1\<rparr>"

text \<open>The credit of the energy that \<^verbatim>\<open>consumeEnergy\<close> returned, with its positive outcome.\<close>

definition credit :: "real \<Rightarrow> int \<Rightarrow> entity \<Rightarrow> entity" where
  "credit energyGained tk e =
     (if 0 < energyGained
      then e\<lparr>energy := energy e + energyGained,
              totalEnergyGained := totalEnergyGained e + energyGained,
              recentOutcomes := recentOutcomes e
                @ [\<lparr>out_action = lastActionIndex e, reward = 1.0, out_tick = tk\<rparr>]\<rparr>
      else e)"

text \<open>The negative outcome of a low energy.\<close>

definition low_energy :: "int \<Rightarrow> entity \<Rightarrow> entity" where
  "low_energy tk e =
     (if energy e < 20
      then e\<lparr>recentOutcomes := recentOutcomes e
                @ [\<lparr>out_action = lastActionIndex e, reward = -0.1, out_tick = tk\<rparr>]\<rparr>
      else e)"

text \<open>The window keeps the outcomes of the last ten ticks.\<close>

definition prune :: "int \<Rightarrow> entity \<Rightarrow> entity" where
  "prune tk e = e\<lparr>recentOutcomes := filter (\<lambda>ou. tk - out_tick ou \<le> 10) (recentOutcomes e)\<rparr>"

text \<open>The recording of the observation of the own cell.\<close>

definition record_observation :: "int \<Rightarrow> entity \<Rightarrow> entity" where
  "record_observation tk e =
     (case find (\<lambda>v. vp_distance v = 0) (vision e) of
        None \<Rightarrow> e
      | Some currentObservation \<Rightarrow>
          let previousEnergy = energy e + 0.5;
              outc = (if lastTotalEnergy e < totalEnergyGained e then ''energy_gained''
                      else if energy e < previousEnergy - 0.5 then ''energy_lost''
                      else ''moved'')
          in (addMemory currentObservation (lastAction e) outc tk e)
               \<lparr>lastTotalEnergy := totalEnergyGained e\<rparr>)"

text \<open>
  The first part as a whole, up to the recording: it returns the entity and the world
  after \<^verbatim>\<open>consumeEnergy\<close>.
\<close>

definition sense :: "vision_draws \<Rightarrow> world \<Rightarrow> entity list \<Rightarrow> int \<Rightarrow> entity \<Rightarrow> entity \<times> world" where
  "sense d w otherEntities tk e =
     (let e1 = decay e;
          res = consumeEnergy (ent_x e1) (ent_y e1) w;
          e2 = credit (fst res) tk e1;
          e3 = low_energy tk e2;
          e4 = prune tk e3;
          e5 = updateVision d (snd res) otherEntities e4
      in (record_observation tk e5, snd res))"


text \<open>
  The order the specification words: the nudge first, then the choice of the action, made
  with the nudged policy, then the action.
\<close>

definition update_as_specified ::
  "update_draws \<Rightarrow> world \<Rightarrow> entity list \<Rightarrow> int \<Rightarrow> entity \<Rightarrow> error + entity \<times> world \<times> bool" where
  "update_as_specified d w otherEntities tk e =
     (let s = sense (vis d) w otherEntities tk e
      in case applyREINFORCELearning (learn_now d) (fst s) of
           Inl err \<Rightarrow> Inl err
         | Inr learned \<Rightarrow>
             (case executeAction (makeDecision (decide_now d) (pick d) tk learned) learned of
                Inl err \<Rightarrow> Inl err
              | Inr acted \<Rightarrow>
                  let e' = acted\<lparr>fitness := real (age acted) + totalEnergyGained acted\<rparr>
                  in Inr (e', snd s, 0 < energy e')))"

text \<open>\<^verbatim>\<open>reproduce\<close> and \<^verbatim>\<open>clone\<close>.\<close>

definition reproduce :: "birth_draws \<Rightarrow> mutate_draws \<Rightarrow> real \<Rightarrow> real \<Rightarrow> entity \<Rightarrow> entity" where
  "reproduce b m mutationRate mutationStrength parent =
     (ConsciousEntity b None None None (ent_gridSize parent))
       \<lparr>brain := mutate m mutationRate mutationStrength (brain parent)\<rparr>"

definition clone_entity :: "birth_draws \<Rightarrow> entity \<Rightarrow> entity" where
  "clone_entity b e =
     (ConsciousEntity b (Some (ent_x e)) (Some (ent_y e)) None (ent_gridSize e))
       \<lparr>brain := clone_network (brain e), energy := energy e, age := age e,
        totalEnergyGained := totalEnergyGained e, fitness := fitness e\<rparr>"

section \<open>PopulationManager\<close>

record gen_stat =
  stat_tick :: int
  stat_generation :: nat
  stat_livingCount :: nat
  stat_averageEnergy :: real
  stat_averageFitness :: real
  stat_bestFitness :: real

record population =
  populationSize :: nat
  pop_gridSize :: nat
  entities :: "entity list"
  generation :: nat
  totalDeaths :: nat
  bestFitness :: real
  allTimeBest :: "entity option"
  mutationRate :: real
  mutationStrength :: real
  generationStats :: "gen_stat list"




text \<open>
  \<^verbatim>\<open>findBestLivingEntity\<close>: the pair of the loop is (bestEntity, bestFitness), and the
  comparison is strict, so that the first of several best entities is kept.
\<close>

definition best_step :: "entity option \<times> real \<Rightarrow> entity \<Rightarrow> entity option \<times> real" where
  "best_step acc e =
     (if 0 < energy e \<and> snd acc < fitness e then (Some e, fitness e) else acc)"

definition findBestLivingEntity :: "entity list \<Rightarrow> entity option" where
  "findBestLivingEntity es = fst (foldl best_step (None, -1) es)"


text \<open>
  \<^verbatim>\<open>handleEntityDeath(entityIndex)\<close>. The draws are those of the copy kept as the best
  entity of all times, and those of the birth and of the mutation of the new entity. The
  calls of the database are calls of an external collaborator and leave the population
  as it is.
\<close>

record death_draws =
  clone_birth :: birth_draws
  child_birth :: birth_draws
  child_mutation :: mutate_draws

definition handleEntityDeath :: "death_draws \<Rightarrow> nat \<Rightarrow> population \<Rightarrow> population" where
  "handleEntityDeath d entityIndex p =
     (let deadEntity = entities p ! entityIndex;
          p1 = p\<lparr>totalDeaths := totalDeaths p + 1\<rparr>;
          p2 = (if bestFitness p1 < fitness deadEntity
                then p1\<lparr>bestFitness := fitness deadEntity,
                        allTimeBest := Some (clone_entity (clone_birth d) deadEntity)\<rparr>
                else p1);
          newEntity =
            (case findBestLivingEntity (entities p2) of
               Some bestParent \<Rightarrow>
                 reproduce (child_birth d) (child_mutation d) (mutationRate p2)
                   (mutationStrength p2) bestParent
             | None \<Rightarrow> ConsciousEntity (child_birth d) None None None (pop_gridSize p2))
      in p2\<lparr>entities := (entities p2)[entityIndex := newEntity], generation := generation p2 + 1\<rparr>)"













section \<open>Example states\<close>

text \<open>
  Two blooms of the cores 0 and 1 on the cell \<open>(2, 3)\<close>, inserted at ticks 7 and 8, and a
  third one elsewhere: the call removes the bloom of tick 7, keeps the other two, and
  schedules core 0 only.
\<close>

definition two_blooms :: world where
  "two_blooms =
     \<lparr>gridSize = 5, tick = 9, phase = emit,
      temperature = replicate 5 (replicate 5 0.5),
      catalyser = replicate 5 (replicate 5 0),
      cores =
        [\<lparr>core_x = 2, core_y = 3, state = bloomed, incubationTime = 2, bloomTime = 7,
          temperatureExposure = 0, consecutiveHighTemp = 5, core_id = 0, moveAfterTick = None\<rparr>,
         \<lparr>core_x = 2, core_y = 3, state = bloomed, incubationTime = 3, bloomTime = 8,
          temperatureExposure = 0, consecutiveHighTemp = 5, core_id = 1, moveAfterTick = None\<rparr>],
      energies =
        [\<lparr>en_x = 0, en_y = 0, createdAt = 6, active = True, coreId = 1\<rparr>,
         \<lparr>en_x = 2, en_y = 3, createdAt = 7, active = True, coreId = 0\<rparr>,
         \<lparr>en_x = 2, en_y = 3, createdAt = 8, active = True, coreId = 1\<rparr>],
      upper_catalyser = replicate 5 (replicate 5 1)\<rparr>"

text \<open>Draws that are all one half, for a world and for a step.\<close>

definition calm_world_draws :: world_draws where
  "calm_world_draws =
     \<lparr>temp_noise = (\<lambda>x y. 1/2), upper_init = (\<lambda>x y. 1/2),
      core_rx = (\<lambda>i. 1/2), core_ry = (\<lambda>i. 1/2)\<rparr>"

definition calm_step_draws :: step_draws where
  "calm_step_draws =
     \<lparr>shift_noise = (\<lambda>x y. 1/2), move_early = (\<lambda>i. 1/2), move_late = (\<lambda>i. 1/2)\<rparr>"

text \<open>
  A world of one cell with one dormant core, temperature one half and upper catalyser 1,
  and the five worlds that follow it under calm draws.
\<close>

definition seed_core :: core where
  "seed_core =
     \<lparr>core_x = 0, core_y = 0, state = dormant, incubationTime = 0, bloomTime = 0,
      temperatureExposure = 0, consecutiveHighTemp = 0, core_id = 0, moveAfterTick = None\<rparr>"

definition seed_world :: world where
  "seed_world =
     \<lparr>gridSize = 1, tick = 0, phase = emit, temperature = [[1/2]], catalyser = [[0]],
      cores = [seed_core], energies = [], upper_catalyser = [[1]]\<rparr>"

definition seed_run :: "nat \<Rightarrow> world" where
  "seed_run n = (step calm_step_draws ^^ n) seed_world"

text \<open>
  A world of two by two cells at tick 4, about to emit, with the temperature one half
  everywhere and no catalyser: a dormant core on the cell \<open>(0, 0)\<close>, and the core of id 1 on
  the cell \<open>(1, 0)\<close>, incubated, with four warm steps behind it.
\<close>

definition ripe_core :: core where
  "ripe_core =
     \<lparr>core_x = 1, core_y = 0, state = incubated, incubationTime = 2, bloomTime = 0,
      temperatureExposure = 0, consecutiveHighTemp = 4, core_id = 1, moveAfterTick = None\<rparr>"

definition ripe_world :: world where
  "ripe_world =
     \<lparr>gridSize = 2, tick = 4, phase = emit, temperature = [[1/2, 1/2], [1/2, 1/2]],
      catalyser = [[0, 0], [0, 0]],
      cores = [seed_core, ripe_core], energies = [],
      upper_catalyser = [[0, 0], [0, 0]]\<rparr>"

text \<open>
  Serialised data that declares one layer with one neuron and one input, and carries two
  layers, the first with two neurons and three inputs.
\<close>

definition wide_layer :: layer where
  "wide_layer = \<lparr>weights = [[Fin 1, Fin 2, Fin 3], [Fin 4, Fin 5, Fin 6]],
                  biases = [Fin 7, Fin 8]\<rparr>"

definition extra_layer :: layer where
  "extra_layer = \<lparr>weights = [[Fin 9, Fin 10]], biases = [Fin 11]\<rparr>"

definition mismatched :: serialized where
  "mismatched =
     \<lparr>ser_layers = Some [wide_layer, extra_layer],
      ser_architecture =
        Some \<lparr>arch_layers = 1,
              arch_structure = [\<lparr>neurons = 1, inputs = 1, info_weights = 1, info_biases = 1,
                                 parameters = 2\<rparr>],
              totalParameters = 2\<rparr>,
      version = ''1.0'', serializedAt = 0\<rparr>"

text \<open>Serialised data that declares two layers and carries one.\<close>

definition short_data :: serialized where
  "short_data =
     \<lparr>ser_layers = Some [extra_layer],
      ser_architecture =
        Some \<lparr>arch_layers = 2,
              arch_structure = [\<lparr>neurons = 1, inputs = 2, info_weights = 2, info_biases = 1,
                                 parameters = 3\<rparr>,
                                \<lparr>neurons = 1, inputs = 1, info_weights = 1, info_biases = 1,
                                 parameters = 2\<rparr>],
              totalParameters = 5\<rparr>,
      version = ''1.0'', serializedAt = 0\<rparr>"

definition zero_init :: init_draws where
  "zero_init = \<lparr>init_w = (\<lambda>l j k. 0), init_b = (\<lambda>l j. 0)\<rparr>"

text \<open>The network of the standard sizes with all parameters 0.\<close>

definition zero_layer :: "nat \<Rightarrow> nat \<Rightarrow> layer" where
  "zero_layer n m = \<lparr>weights = replicate m (replicate n (Fin 0)), biases = replicate m (Fin 0)\<rparr>"

definition zero_net :: network where
  "zero_net =
     \<lparr>layers = [zero_layer 542 256, zero_layer 256 128, zero_layer 128 64, zero_layer 64 5]\<rparr>"

text \<open>
  The network of the standard sizes with all parameters 1, and an input of 542 numbers
  \<open>10^308\<close>, which are finite: the sums of the first layer overflow.
\<close>

definition ones_layer :: "nat \<Rightarrow> nat \<Rightarrow> layer" where
  "ones_layer n m = \<lparr>weights = replicate m (replicate n (Fin 1)), biases = replicate m (Fin 1)\<rparr>"

definition ones_net :: network where
  "ones_net =
     \<lparr>layers = [ones_layer 542 256, ones_layer 256 128, ones_layer 128 64, ones_layer 64 5]\<rparr>"

definition huge_input :: "num list" where
  "huge_input = replicate 542 (Fin (10 ^ 308))"

text \<open>
  A network whose hidden layers have all parameters 0 and whose output layer has the biases
  1000, 0, 0, 0, 0: the first logit is 1000, whose exponential overflows.
\<close>

definition sharp_layer :: layer where
  "sharp_layer =
     \<lparr>weights = replicate 5 (replicate 64 (Fin 0)),
      biases = [Fin 1000, Fin 0, Fin 0, Fin 0, Fin 0]\<rparr>"

definition sharp_net :: network where
  "sharp_net =
     \<lparr>layers = [zero_layer 542 256, zero_layer 256 128, zero_layer 128 64, sharp_layer]\<rparr>"

definition half_input :: "num list" where
  "half_input = replicate 542 (Fin (1/2))"

text \<open>Calm draws for the agents and the population.\<close>

definition calm_birth :: birth_draws where
  "calm_birth = \<lparr>born_x = 1/2, born_y = 1/2, born_id = 1/2, born_brain = zero_init\<rparr>"


definition calm_vision :: vision_draws where
  "calm_vision = \<lparr>vis_noise = (\<lambda>p k. 1/2), vis_now = (\<lambda>p. 0)\<rparr>"












text \<open>
  An agent on the cell \<open>(0, 0)\<close> of a grid of size 100 whose brain has all parameters 0 and
  whose window holds one reward of 1 for the action 4, and draws under which
  \<^verbatim>\<open>makeDecision\<close> draws 0.19998.
\<close>

definition rewarded_agent :: entity where
  "rewarded_agent =
     (ConsciousEntity calm_birth (Some 0) (Some 0) None 100)
       \<lparr>recentOutcomes := [\<lparr>out_action = 4, reward = 1, out_tick = 0\<rparr>]\<rparr>"

definition keen_update :: update_draws where
  "keen_update = \<lparr>vis = calm_vision, decide_now = 0, pick = 0.19998, learn_now = 0\<rparr>"

(*THEOREMS*)

section \<open>Energy consumption removes the earliest match only\<close>

lemma findIndex_Some_iff:
  "findIndex P xs = Some k \<longleftrightarrow> k < length xs \<and> P (xs ! k) \<and> (\<forall>j<k. \<not> P (xs ! j))"
proof (induction xs arbitrary: k)
  case Nil
  show ?case by simp
next
  case (Cons a as)
  show ?case
  proof (cases "P a")
    case True
    then show ?thesis by (cases k) auto
  next
    case False
    show ?thesis
    proof (cases k)
      case 0
      with False show ?thesis by simp
    next
      case (Suc m)
      have "(\<forall>j<Suc m. \<not> P ((a # as) ! j)) \<longleftrightarrow> (\<forall>j<m. \<not> P (as ! j))"
        using False by (auto simp: less_Suc_eq_0_disj)
      with False Suc Cons.IH [of m] show ?thesis by auto
    qed
  qed
qed

lemma findIndex_None_iff: "findIndex P xs = None \<longleftrightarrow> (\<forall>x\<in>set xs. \<not> P x)"
  by (induction xs) auto

lemma filter_splice1_first:
  assumes "k < length xs" "P (xs ! k)"
  shows "length (filter P (splice1 k xs)) + 1 = length (filter P xs)"
proof -
  have "xs = take k xs @ xs ! k # drop (Suc k) xs"
    using assms(1) by (simp add: id_take_nth_drop)
  then have "filter P xs = filter P (take k xs) @ xs ! k # filter P (drop (Suc k) xs)"
    using assms(2) by (metis filter.simps(2) filter_append)
  then show ?thesis by (simp add: splice1_def)
qed

lemma scheduleCoreMovement_energies [simp]:
  "energies (scheduleCoreMovement cid d w) = energies w"
  by (simp add: scheduleCoreMovement_def split: option.splits)

lemma scheduleCoreMovement_length [simp]:
  "length (cores (scheduleCoreMovement cid d w)) = length (cores w)"
  by (simp add: scheduleCoreMovement_def split: option.splits)

lemma scheduleCoreMovement_other:
  "core_id (cores w ! j) \<noteq> cid \<Longrightarrow> cores (scheduleCoreMovement cid d w) ! j = cores w ! j"
  by (auto simp: scheduleCoreMovement_def findIndex_Some_iff nth_list_update
           split: option.splits)

lemma scheduleCoreMovement_nth:
  "j < length (cores w) \<Longrightarrow>
   cores (scheduleCoreMovement cid d w) ! j =
     (if findIndex (\<lambda>c. core_id c = cid) (cores w) = Some j
      then (cores w ! j)\<lparr>moveAfterTick := Some (tick w + d)\<rparr> else cores w ! j)"
  by (auto simp: scheduleCoreMovement_def nth_list_update split: option.splits)

lemma scheduleCoreMovement_frame [simp]:
  "gridSize (scheduleCoreMovement cid d w) = gridSize w"
  "tick (scheduleCoreMovement cid d w) = tick w"
  "phase (scheduleCoreMovement cid d w) = phase w"
  "temperature (scheduleCoreMovement cid d w) = temperature w"
  "catalyser (scheduleCoreMovement cid d w) = catalyser w"
  "upper_catalyser (scheduleCoreMovement cid d w) = upper_catalyser w"
  by (simp_all add: scheduleCoreMovement_def split: option.splits)

lemma consumeEnergy_found:
  assumes "findIndex (energy_at x y) (energies w) = Some k"
  shows "consumeEnergy x y w =
           (10, (scheduleCoreMovement (coreId (energies w ! k)) 3 w)
                  \<lparr>energies := splice1 k (energies w)\<rparr>)"
  using assms by (simp add: consumeEnergy_def Let_def)


lemma filter_nonempty_findIndex:
  assumes "0 < length (filter P xs)"
  shows "\<exists>k. findIndex P xs = Some k"
proof (cases "findIndex P xs")
  case None
  then have "filter P xs = []" by (simp add: findIndex_None_iff filter_empty_conv)
  with assms show ?thesis by simp
next
  case (Some k)
  then show ?thesis by blast
qed

text \<open>
  Claim C10. When two or more active energy manifestations lie on the cell \<open>(x, y)\<close>, one
  call of \<^verbatim>\<open>consumeEnergy(x, y)\<close> returns 10 and removes exactly one of them, the one at
  the least index \<open>k\<close> of the list (the earliest inserted, since energies are only ever
  appended): the list afterwards is the list before without position \<open>k\<close>, so every other
  manifestation is unchanged and at least one active manifestation is still on the cell.
  The only core that is touched is the first core whose id is that energy's \<open>coreId\<close>;
  it gets \<open>moveAfterTick = tick + 3\<close>. Every core with another id, and every other field of
  the world, is unchanged.
\<close>

theorem consumeEnergy_removes_one:
  assumes "2 \<le> length (filter (energy_at x y) (energies w))"
  shows "\<exists>k. k < length (energies w) \<and> energy_at x y (energies w ! k)
           \<and> (\<forall>j<k. \<not> energy_at x y (energies w ! j))
           \<and> fst (consumeEnergy x y w) = 10
           \<and> energies (snd (consumeEnergy x y w))
               = take k (energies w) @ drop (Suc k) (energies w)
           \<and> length (filter (energy_at x y) (energies (snd (consumeEnergy x y w)))) + 1
               = length (filter (energy_at x y) (energies w))
           \<and> length (cores (snd (consumeEnergy x y w))) = length (cores w)
           \<and> (\<forall>j<length (cores w).
                 cores (snd (consumeEnergy x y w)) ! j =
                   (if findIndex (\<lambda>c. core_id c = coreId (energies w ! k)) (cores w) = Some j
                    then (cores w ! j)\<lparr>moveAfterTick := Some (tick w + 3)\<rparr>
                    else cores w ! j))
           \<and> (\<forall>j<length (cores w). core_id (cores w ! j) \<noteq> coreId (energies w ! k)
                 \<longrightarrow> cores (snd (consumeEnergy x y w)) ! j = cores w ! j)
           \<and> gridSize (snd (consumeEnergy x y w)) = gridSize w
           \<and> tick (snd (consumeEnergy x y w)) = tick w
           \<and> phase (snd (consumeEnergy x y w)) = phase w
           \<and> temperature (snd (consumeEnergy x y w)) = temperature w
           \<and> catalyser (snd (consumeEnergy x y w)) = catalyser w
           \<and> upper_catalyser (snd (consumeEnergy x y w)) = upper_catalyser w"
proof -
  from assms have "0 < length (filter (energy_at x y) (energies w))" by linarith
  then have "\<exists>k. findIndex (energy_at x y) (energies w) = Some k"
    by (rule filter_nonempty_findIndex)
  then obtain k where k: "findIndex (energy_at x y) (energies w) = Some k" ..
  then have first: "k < length (energies w)" "energy_at x y (energies w ! k)"
      "\<forall>j<k. \<not> energy_at x y (energies w ! j)"
    by (simp_all add: findIndex_Some_iff)
  note ce = consumeEnergy_found [OF k]
  have rest: "length (filter (energy_at x y) (splice1 k (energies w))) + 1
                = length (filter (energy_at x y) (energies w))"
    using first(1,2) by (rule filter_splice1_first)
  show ?thesis
  proof (intro exI [of _ k] conjI)
    show "\<forall>j<length (cores w).
            cores (snd (consumeEnergy x y w)) ! j =
              (if findIndex (\<lambda>c. core_id c = coreId (energies w ! k)) (cores w) = Some j
               then (cores w ! j)\<lparr>moveAfterTick := Some (tick w + 3)\<rparr>
               else cores w ! j)"
      by (simp add: ce scheduleCoreMovement_nth)
    show "\<forall>j<length (cores w). core_id (cores w ! j) \<noteq> coreId (energies w ! k)
            \<longrightarrow> cores (snd (consumeEnergy x y w)) ! j = cores w ! j"
      by (simp add: ce scheduleCoreMovement_other)
    show "length (filter (energy_at x y) (energies (snd (consumeEnergy x y w)))) + 1
            = length (filter (energy_at x y) (energies w))"
      using rest by (simp add: ce)
  qed (use first in \<open>simp_all add: ce splice1_def\<close>)
qed

lemma two_blooms_run:
  "consumeEnergy 2 3 two_blooms =
     (10, two_blooms
        \<lparr>cores :=
           [\<lparr>core_x = 2, core_y = 3, state = bloomed, incubationTime = 2, bloomTime = 7,
             temperatureExposure = 0, consecutiveHighTemp = 5, core_id = 0,
             moveAfterTick = Some 12\<rparr>,
            \<lparr>core_x = 2, core_y = 3, state = bloomed, incubationTime = 3, bloomTime = 8,
             temperatureExposure = 0, consecutiveHighTemp = 5, core_id = 1,
             moveAfterTick = None\<rparr>],
         energies :=
           [\<lparr>en_x = 0, en_y = 0, createdAt = 6, active = True, coreId = 1\<rparr>,
            \<lparr>en_x = 2, en_y = 3, createdAt = 8, active = True, coreId = 1\<rparr>]\<rparr>)"
  by (simp add: consumeEnergy_def scheduleCoreMovement_def two_blooms_def energy_at_def
        splice1_def Let_def)

theorem consumeEnergy_removes_one_witness:
  "2 \<le> length (filter (energy_at 2 3) (energies two_blooms))
   \<and> (\<exists>k. k < length (energies two_blooms) \<and> energy_at 2 3 (energies two_blooms ! k)
         \<and> fst (consumeEnergy 2 3 two_blooms) = 10
         \<and> energies (snd (consumeEnergy 2 3 two_blooms))
             = take k (energies two_blooms) @ drop (Suc k) (energies two_blooms)
         \<and> length (filter (energy_at 2 3) (energies (snd (consumeEnergy 2 3 two_blooms)))) + 1
             = length (filter (energy_at 2 3) (energies two_blooms)))"
proof -
  have h: "2 \<le> length (filter (energy_at 2 3) (energies two_blooms))"
    by (simp add: two_blooms_def energy_at_def)
  from consumeEnergy_removes_one [OF h] show ?thesis
    using h by blast
qed

section \<open>Out-of-bounds sensing\<close>

text \<open>
  Claim C9. For every coordinate pair outside the grid (\<open>x < 0\<close>, \<open>x \<ge> gridSize\<close>,
  \<open>y < 0\<close> or \<open>y \<ge> gridSize\<close>), every distance, every observer energy and every world,
  \<^verbatim>\<open>getRawPhysicalProperties\<close> returns the reading whose five fields and whose confidence
  are 0. The function is total: this branch returns before any array is indexed, so it
  has no way to raise.
\<close>

theorem getRawPhysicalProperties_out_of_bounds:
  assumes "x < 0 \<or> int (gridSize w) \<le> x \<or> y < 0 \<or> int (gridSize w) \<le> y"
  shows "getRawPhysicalProperties nz w x y distance observerEnergy =
           \<lparr>field1 = 0, field2 = 0, field3 = 0, field4 = 0, field5 = 0, confidence = 0\<rparr>"
  using assms by (simp add: getRawPhysicalProperties_def)

theorem getRawPhysicalProperties_out_of_bounds_witness:
  "(-1 < (0::int) \<or> int (gridSize two_blooms) \<le> -1 \<or> (2::int) < 0
      \<or> int (gridSize two_blooms) \<le> 2)
   \<and> getRawPhysicalProperties (\<lambda>k. 0.25) two_blooms (-1) 2 3 40 =
       \<lparr>field1 = 0, field2 = 0, field3 = 0, field4 = 0, field5 = 0, confidence = 0\<rparr>
   \<and> getRawPhysicalProperties (\<lambda>k. 0.25) two_blooms 4 5 1 100 =
       \<lparr>field1 = 0, field2 = 0, field3 = 0, field4 = 0, field5 = 0, confidence = 0\<rparr>"
proof -
  have a: "(-1::int) < 0 \<or> int (gridSize two_blooms) \<le> -1 \<or> (2::int) < 0
             \<or> int (gridSize two_blooms) \<le> 2"
    by simp
  have b: "(4::int) < 0 \<or> int (gridSize two_blooms) \<le> 4 \<or> (5::int) < 0
             \<or> int (gridSize two_blooms) \<le> 5"
    by (simp add: two_blooms_def)
  show ?thesis
    using a getRawPhysicalProperties_out_of_bounds [OF a, of "\<lambda>k. 0.25" 3 40]
      getRawPhysicalProperties_out_of_bounds [OF b, of "\<lambda>k. 0.25" 1 100]
    by simp
qed

section \<open>The ranges of the three fields\<close>

lemma grid_allI:
  assumes "length G = g" "\<And>x. x < g \<Longrightarrow> length (G ! x) = g"
    "\<And>x y. x < g \<Longrightarrow> y < g \<Longrightarrow> P (G ! x ! y)"
  shows "grid_all g P G"
  using assms by (simp add: grid_all_def)

lemma grid_allD:
  assumes "grid_all g P G"
  shows "length G = g" "x < g \<Longrightarrow> length (G ! x) = g" "x < g \<Longrightarrow> y < g \<Longrightarrow> P (G ! x ! y)"
  using assms by (simp_all add: grid_all_def)

lemma grid_all_mono:
  assumes "grid_all g P G" "\<And>v. P v \<Longrightarrow> Q v"
  shows "grid_all g Q G"
  using assms by (simp add: grid_all_def)

lemma grid_all_table:
  assumes "\<And>x y. x < g \<Longrightarrow> y < g \<Longrightarrow> P (f x y)"
  shows "grid_all g P (map (\<lambda>x. map (\<lambda>y. f x y) [0..<g]) [0..<g])"
  using assms by (simp add: grid_all_def)

lemma grid_all_replicate:
  assumes "P v"
  shows "grid_all g P (replicate g (replicate g v))"
  using assms by (simp add: grid_all_def)

lemma set_cell_length [simp]: "length (set_cell G a b v) = length G"
  by (simp add: set_cell_def)

lemma set_cell_row_length [simp]: "length (set_cell G a b v ! x) = length (G ! x)"
  by (cases "a < length G") (simp_all add: set_cell_def nth_list_update not_less list_update_beyond)

lemma set_cell_nth:
  "set_cell G a b v ! x ! y =
     (if x = a \<and> a < length G \<and> y = b \<and> b < length (G ! a) then v else G ! x ! y)"
  by (cases "a < length G"; cases "b < length (G ! a)")
     (auto simp: set_cell_def nth_list_update not_less list_update_beyond)

lemma grid_all_set_cell:
  assumes "grid_all g P G" "P v"
  shows "grid_all g P (set_cell G a b v)"
  using assms by (simp add: grid_all_def set_cell_nth)

lemma set_grid_cells [simp]: "set (grid_cells g) = {c. fst c < g \<and> snd c < g}"
  by (auto simp: grid_cells_def)

text \<open>The diffusion loop: every cell it has visited holds a clamped value.\<close>

lemma diffuse_cell_shape:
  assumes "grid_all g (\<lambda>v. True) nt"
  shows "grid_all g (\<lambda>v. True) (diffuse_cell g noise nt c)"
  using assms by (simp add: diffuse_cell_def Let_def grid_all_set_cell)

lemma diffuse_cell_visited:
  assumes "grid_all g (\<lambda>v. True) nt" "fst c < g" "snd c < g"
  shows "0 \<le> diffuse_cell g noise nt c ! fst c ! snd c
         \<and> diffuse_cell g noise nt c ! fst c ! snd c \<le> 1"
  using assms by (simp add: diffuse_cell_def Let_def set_cell_nth grid_all_def)

lemma diffuse_cell_other:
  assumes "(x, y) \<noteq> c"
  shows "diffuse_cell g noise nt c ! x ! y = nt ! x ! y"
  using assms by (cases c) (auto simp: diffuse_cell_def Let_def set_cell_nth)

lemma diffuse_fold:
  assumes "grid_all g (\<lambda>v. True) nt"
    "\<forall>c\<in>A. 0 \<le> nt ! fst c ! snd c \<and> nt ! fst c ! snd c \<le> 1"
    "\<forall>c\<in>set cs. fst c < g \<and> snd c < g"
  shows "grid_all g (\<lambda>v. True) (foldl (diffuse_cell g noise) nt cs)
         \<and> (\<forall>c\<in>A \<union> set cs. 0 \<le> foldl (diffuse_cell g noise) nt cs ! fst c ! snd c
                             \<and> foldl (diffuse_cell g noise) nt cs ! fst c ! snd c \<le> 1)"
  using assms
proof (induction cs arbitrary: nt A)
  case Nil
  then show ?case by simp
next
  case (Cons c cs)
  let ?nt = "diffuse_cell g noise nt c"
  have shape: "grid_all g (\<lambda>v. True) ?nt"
    using Cons.prems(1) by (rule diffuse_cell_shape)
  have c: "fst c < g" "snd c < g"
    using Cons.prems(3) by simp_all
  have seen: "\<forall>d\<in>insert c A. 0 \<le> ?nt ! fst d ! snd d \<and> ?nt ! fst d ! snd d \<le> 1"
  proof
    fix d assume d: "d \<in> insert c A"
    show "0 \<le> ?nt ! fst d ! snd d \<and> ?nt ! fst d ! snd d \<le> 1"
    proof (cases "d = c")
      case True
      then show ?thesis using diffuse_cell_visited [OF Cons.prems(1) c] by simp
    next
      case False
      then have "(fst d, snd d) \<noteq> c" by auto
      then have "?nt ! fst d ! snd d = nt ! fst d ! snd d"
        by (rule diffuse_cell_other)
      moreover have "d \<in> A" using d False by simp
      ultimately show ?thesis using Cons.prems(2) by simp
    qed
  qed
  have rest: "\<forall>d\<in>set cs. fst d < g \<and> snd d < g"
    using Cons.prems(3) by simp
  have "insert c A \<union> set cs = A \<union> set (c # cs)" by auto
  with Cons.IH [OF shape seen rest] show ?case by simp
qed

lemma shifted_shape: "grid_all g (\<lambda>v. True) (shifted g t)"
  unfolding shifted_def by (rule grid_all_table) simp

lemma shiftTemperature_range:
  "grid_all (gridSize w) (\<lambda>v. 0 \<le> v \<and> v \<le> 1) (temperature (shiftTemperature noise w))"
proof -
  let ?g = "gridSize w"
  let ?nt = "foldl (diffuse_cell ?g noise) (shifted ?g (temperature w)) (grid_cells ?g)"
  have f: "grid_all ?g (\<lambda>v. True) ?nt
           \<and> (\<forall>c\<in>{} \<union> set (grid_cells ?g). 0 \<le> ?nt ! fst c ! snd c \<and> ?nt ! fst c ! snd c \<le> 1)"
    by (rule diffuse_fold) (simp_all add: shifted_shape)
  have "grid_all ?g (\<lambda>v. 0 \<le> v \<and> v \<le> 1) ?nt"
  proof (rule grid_allI)
    show "length ?nt = ?g" using f by (simp add: grid_all_def)
    show "length (?nt ! x) = ?g" if "x < ?g" for x using f that by (simp add: grid_all_def)
    show "0 \<le> ?nt ! x ! y \<and> ?nt ! x ! y \<le> 1" if "x < ?g" "y < ?g" for x y
    proof -
      have "(x, y) \<in> {} \<union> set (grid_cells ?g)" using that by simp
      with f have "0 \<le> ?nt ! fst (x, y) ! snd (x, y) \<and> ?nt ! fst (x, y) ! snd (x, y) \<le> 1"
        by blast
      then show ?thesis by simp
    qed
  qed
  then show ?thesis by (simp add: shiftTemperature_def)
qed

lemma shiftTemperature_frame [simp]:
  "gridSize (shiftTemperature noise w) = gridSize w"
  "tick (shiftTemperature noise w) = tick w"
  "phase (shiftTemperature noise w) = phase w"
  "catalyser (shiftTemperature noise w) = catalyser w"
  "upper_catalyser (shiftTemperature noise w) = upper_catalyser w"
  "cores (shiftTemperature noise w) = cores w"
  "energies (shiftTemperature noise w) = energies w"
  by (simp_all add: shiftTemperature_def)

lemma emitPhase_lower:
  assumes "grid_all (gridSize w) (\<lambda>v. 0 \<le> v) (catalyser w)"
    "grid_all (gridSize w) (\<lambda>v. 0 \<le> v \<and> v \<le> 2) (upper_catalyser w)"
  shows "grid_all (gridSize w) (\<lambda>v. 0 \<le> v) (catalyser (emitPhase w))"
proof -
  have "grid_all (gridSize w) (\<lambda>v. 0 \<le> v)
          (map (\<lambda>x. map (\<lambda>y. catalyser w ! x ! y + upper_catalyser w ! x ! y) [0..<gridSize w])
             [0..<gridSize w])"
  proof (rule grid_all_table)
    fix x y assume "x < gridSize w" "y < gridSize w"
    then have "0 \<le> catalyser w ! x ! y" "0 \<le> upper_catalyser w ! x ! y"
      using assms by (simp_all add: grid_all_def)
    then show "0 \<le> catalyser w ! x ! y + upper_catalyser w ! x ! y" by simp
  qed
  then show ?thesis by (simp add: emitPhase_def)
qed

lemma emitPhase_upper:
  assumes "grid_all (gridSize w) (\<lambda>v. 0 \<le> v \<and> v \<le> 2) (upper_catalyser w)"
  shows "grid_all (gridSize w) (\<lambda>v. 0 \<le> v \<and> v \<le> 2) (upper_catalyser (emitPhase w))"
proof -
  have "grid_all (gridSize w) (\<lambda>v. 0 \<le> v \<and> v \<le> 2)
          (map (\<lambda>x. map (\<lambda>y. upper_catalyser w ! x ! y * 0.8) [0..<gridSize w])
             [0..<gridSize w])"
  proof (rule grid_all_table)
    fix x y assume "x < gridSize w" "y < gridSize w"
    then have "0 \<le> upper_catalyser w ! x ! y" "upper_catalyser w ! x ! y \<le> 2"
      using assms by (simp_all add: grid_all_def)
    then show "0 \<le> upper_catalyser w ! x ! y * 0.8 \<and> upper_catalyser w ! x ! y * 0.8 \<le> 2"
      by simp
  qed
  then show ?thesis by (simp add: emitPhase_def)
qed

lemma emitPhase_frame [simp]:
  "gridSize (emitPhase w) = gridSize w"
  "tick (emitPhase w) = tick w"
  "phase (emitPhase w) = phase w"
  "temperature (emitPhase w) = temperature w"
  "cores (emitPhase w) = cores w"
  "energies (emitPhase w) = energies w"
  by (simp_all add: emitPhase_def)

text \<open>The collect phase: the collected amounts and the lower field stay non-negative.\<close>

lemma collect_neighbours_in:
  assumes "grid_all g (\<lambda>v. 0 \<le> v \<and> v \<le> 2) u" "n \<in> set (collect_neighbours g u x y)"
  shows "fst n < g \<and> fst (snd n) < g \<and> 0 \<le> snd (snd n)"
proof -
  from assms(2) obtain d where d: "0 \<le> int x + fst d" "int x + fst d < int g"
      "0 \<le> int y + snd d" "int y + snd d < int g"
      and n: "n = (nat (int x + fst d), nat (int y + snd d),
                   u ! nat (int x + fst d) ! nat (int y + snd d))"
    by (auto simp: collect_neighbours_def)
  have "nat (int x + fst d) < g" "nat (int y + snd d) < g"
    using d by linarith+
  then show ?thesis using assms(1) n by (simp add: grid_all_def)
qed

lemma spread_fold:
  assumes "grid_all g (\<lambda>v. 0 \<le> v) nc" "0 \<le> k"
    "\<forall>n\<in>set ns. fst n < g \<and> fst (snd n) < g \<and> 0 \<le> snd (snd n)"
  shows "grid_all g (\<lambda>v. 0 \<le> v)
           (foldl (\<lambda>nc n. set_cell nc (fst n) (fst (snd n))
                            (nc ! fst n ! fst (snd n) + k * snd (snd n)))
              nc ns)"
  using assms
proof (induction ns arbitrary: nc)
  case Nil
  then show ?case by simp
next
  case (Cons n ns)
  let ?nc = "set_cell nc (fst n) (fst (snd n)) (nc ! fst n ! fst (snd n) + k * snd (snd n))"
  have d: "fst n < g" "fst (snd n) < g" "0 \<le> snd (snd n)" using Cons.prems(3) by simp_all
  then have "0 \<le> nc ! fst n ! fst (snd n)"
    using Cons.prems(1) by (simp add: grid_all_def)
  then have "0 \<le> nc ! fst n ! fst (snd n) + k * snd (snd n)"
    using d Cons.prems(2) by simp
  with Cons.prems(1) have "grid_all g (\<lambda>v. 0 \<le> v) ?nc" by (rule grid_all_set_cell)
  moreover have "\<forall>m\<in>set ns. fst m < g \<and> fst (snd m) < g \<and> 0 \<le> snd (snd m)"
    using Cons.prems(3) by simp
  ultimately show ?case using Cons.IH Cons.prems(2) by simp
qed

lemma collect_cell_nonneg:
  assumes u: "grid_all g (\<lambda>v. 0 \<le> v \<and> v \<le> 2) u"
    and low: "grid_all g (\<lambda>v. 0 \<le> v) (fst st)"
    and nc: "grid_all g (\<lambda>v. 0 \<le> v) (snd st)"
  shows "grid_all g (\<lambda>v. 0 \<le> v) (fst (collect_cell g u st c))
         \<and> grid_all g (\<lambda>v. 0 \<le> v) (snd (collect_cell g u st c))"
proof (cases "0 < fst st ! fst c ! snd c")
  case False
  then show ?thesis using low nc by (simp add: collect_cell_def Let_def)
next
  case True
  let ?ns = "collect_neighbours g u (fst c) (snd c)"
  let ?total = "foldl (\<lambda>s n. s + snd (snd n)) 0 ?ns"
  let ?cur = "fst st ! fst c ! snd c"
  have dens: "\<forall>n\<in>set ?ns. fst n < g \<and> fst (snd n) < g \<and> 0 \<le> snd (snd n)"
    using collect_neighbours_in [OF u] by blast
  have spread: "grid_all g (\<lambda>v. 0 \<le> v)
           (foldl (\<lambda>nc n. set_cell nc (fst n) (fst (snd n))
                            (nc ! fst n ! fst (snd n) + (?cur / ?total) * snd (snd n)))
              (snd st) ?ns)" if "0 < ?total"
  proof (rule spread_fold [OF nc _ dens])
    show "0 \<le> ?cur / ?total" using True that by simp
  qed
  have low': "grid_all g (\<lambda>v. 0 \<le> v) (set_cell (fst st) (fst c) (snd c) 0)"
    using low by (rule grid_all_set_cell) simp
  show ?thesis
    using True low' nc spread
    by (simp add: collect_cell_def Let_def mult.commute divide_inverse mult.left_commute)
qed

lemma collect_fold_nonneg:
  assumes "grid_all g (\<lambda>v. 0 \<le> v \<and> v \<le> 2) u"
    "grid_all g (\<lambda>v. 0 \<le> v) (fst st)" "grid_all g (\<lambda>v. 0 \<le> v) (snd st)"
  shows "grid_all g (\<lambda>v. 0 \<le> v) (fst (foldl (collect_cell g u) st cs))
         \<and> grid_all g (\<lambda>v. 0 \<le> v) (snd (foldl (collect_cell g u) st cs))"
  using assms
proof (induction cs arbitrary: st)
  case Nil
  then show ?case by simp
next
  case (Cons c cs)
  from collect_cell_nonneg [OF Cons.prems, of c] Cons.IH [OF Cons.prems(1)]
  show ?case by simp
qed

lemma collectPhase_ranges:
  assumes "grid_all (gridSize w) (\<lambda>v. 0 \<le> v) (catalyser w)"
    "grid_all (gridSize w) (\<lambda>v. 0 \<le> v \<and> v \<le> 2) (upper_catalyser w)"
  shows "grid_all (gridSize w) (\<lambda>v. 0 \<le> v) (catalyser (collectPhase w))"
    "grid_all (gridSize w) (\<lambda>v. 0 \<le> v \<and> v \<le> 2) (upper_catalyser (collectPhase w))"
proof -
  let ?g = "gridSize w"
  let ?st = "foldl (collect_cell ?g (upper_catalyser w))
               (catalyser w, replicate ?g (replicate ?g 0)) (grid_cells ?g)"
  have zero: "grid_all ?g (\<lambda>v. 0 \<le> v) (replicate ?g (replicate ?g (0::real)))"
    by (rule grid_all_replicate) simp
  have st: "grid_all ?g (\<lambda>v. 0 \<le> v) (fst ?st) \<and> grid_all ?g (\<lambda>v. 0 \<le> v) (snd ?st)"
    by (rule collect_fold_nonneg [OF assms(2)]) (simp_all add: assms(1) zero)
  show "grid_all ?g (\<lambda>v. 0 \<le> v) (catalyser (collectPhase w))"
    using st by (simp add: collectPhase_def Let_def)
  have "grid_all ?g (\<lambda>v. 0 \<le> v \<and> v \<le> 2)
          (map (\<lambda>x. map (\<lambda>y. min 2 (upper_catalyser w ! x ! y + snd ?st ! x ! y)) [0..<?g])
             [0..<?g])"
  proof (rule grid_all_table)
    fix x y assume "x < ?g" "y < ?g"
    then have "0 \<le> upper_catalyser w ! x ! y" "0 \<le> snd ?st ! x ! y"
      using assms(2) st by (simp_all add: grid_all_def)
    then show "0 \<le> min 2 (upper_catalyser w ! x ! y + snd ?st ! x ! y)
               \<and> min 2 (upper_catalyser w ! x ! y + snd ?st ! x ! y) \<le> 2"
      by simp
  qed
  then show "grid_all ?g (\<lambda>v. 0 \<le> v \<and> v \<le> 2) (upper_catalyser (collectPhase w))"
    by (simp add: collectPhase_def Let_def)
qed

lemma collectPhase_frame [simp]:
  "gridSize (collectPhase w) = gridSize w"
  "tick (collectPhase w) = tick w"
  "phase (collectPhase w) = phase w"
  "temperature (collectPhase w) = temperature w"
  "cores (collectPhase w) = cores w"
  "energies (collectPhase w) = energies w"
  by (simp_all add: collectPhase_def Let_def)

text \<open>The cores stay on the grid, and their releases keep the lower field non-negative.\<close>

lemma moveCore_in:
  assumes "0 < g"
  shows "core_in g (moveCore r g c)"
  using assms by (simp add: moveCore_def core_in_def Let_def)

lemma delayed_move_in:
  assumes "0 < g" "core_in g c"
  shows "core_in g (delayed_move g tk r c)"
  using assms moveCore_in [OF assms(1), of r c]
  by (auto simp: delayed_move_def core_in_def split: option.splits)

lemma core_in_cell:
  assumes "grid_all g P G" "core_in g c"
  shows "P (cell G (core_x c) (core_y c))"
proof -
  have "nat (core_x c) < g" "nat (core_y c) < g"
    using assms(2) unfolding core_in_def by linarith+
  then show ?thesis using assms(1) by (simp add: cell_def grid_all_def)
qed

lemma core_step_inv:
  assumes g: "0 < g" and c: "core_in g (fst st)"
    and low: "grid_all g (\<lambda>v. 0 \<le> v) (fst (snd st))"
  shows "core_in g (fst (core_step g tk t r1 r2 st))
         \<and> grid_all g (\<lambda>v. 0 \<le> v) (fst (snd (core_step g tk t r1 r2 st)))"
proof -
  let ?c1 = "delayed_move g tk r1 (fst st)"
  have c1: "core_in g ?c1" using g c by (rule delayed_move_in)
  have nonneg: "0 \<le> cell (fst (snd st)) (core_x ?c1) (core_y ?c1)"
    using low c1 by (rule core_in_cell)
  have rel: "grid_all g (\<lambda>v. 0 \<le> v)
               (set_cell (fst (snd st)) (nat (core_x ?c1)) (nat (core_y ?c1))
                  (cell (fst (snd st)) (core_x ?c1) (core_y ?c1) + 0.1))"
    using low by (rule grid_all_set_cell) (use nonneg in simp)
  have mv: "core_in g (moveCore r2 g k)" for k
    using g by (rule moveCore_in)
  have same: "core_in g k" if "core_x k = core_x ?c1" "core_y k = core_y ?c1" for k
    using c1 that by (simp add: core_in_def)
  show ?thesis
    unfolding core_step_def Let_def
    by (auto simp: mv same rel low)
qed

lemma cores_loop_inv:
  assumes "0 < g" "\<forall>c\<in>set cs. core_in g c" "grid_all g (\<lambda>v. 0 \<le> v) (fst st)"
  shows "(\<forall>c\<in>set (fst (cores_loop g tk t r1 r2 i cs st)). core_in g c)
         \<and> grid_all g (\<lambda>v. 0 \<le> v) (fst (snd (cores_loop g tk t r1 r2 i cs st)))"
  using assms
proof (induction cs arbitrary: i st)
  case Nil
  then show ?case by simp
next
  case (Cons c cs)
  let ?a = "core_step g tk t (r1 i) (r2 i) (c, st)"
  have a: "core_in g (fst ?a) \<and> grid_all g (\<lambda>v. 0 \<le> v) (fst (snd ?a))"
    by (rule core_step_inv) (use Cons.prems in simp_all)
  have "\<forall>k\<in>set cs. core_in g k" using Cons.prems(2) by simp
  from Cons.IH [OF Cons.prems(1) this, of "snd ?a" "Suc i"] a
  show ?case by (simp add: Let_def)
qed

lemma cores_loop_length [simp]:
  "length (fst (cores_loop g tk t r1 r2 i cs st)) = length cs"
  by (induction cs arbitrary: i st) (simp_all add: Let_def)

lemma updateCores_frame [simp]:
  "gridSize (updateCores r1 r2 w) = gridSize w"
  "tick (updateCores r1 r2 w) = tick w"
  "phase (updateCores r1 r2 w) = phase w"
  "temperature (updateCores r1 r2 w) = temperature w"
  "upper_catalyser (updateCores r1 r2 w) = upper_catalyser w"
  by (simp_all add: updateCores_def Let_def)

lemma updateCores_wf:
  assumes "wf_world w"
  shows "wf_world (updateCores r1 r2 w)"
proof -
  have "(\<forall>c\<in>set (cores (updateCores r1 r2 w)). core_in (gridSize w) c)
        \<and> grid_all (gridSize w) (\<lambda>v. 0 \<le> v) (catalyser (updateCores r1 r2 w))"
    using cores_loop_inv [of "gridSize w" "cores w" "(catalyser w, energies w)"
        "tick w" "temperature w" r1 r2 0] assms
    by (simp add: updateCores_def Let_def wf_world_def)
  then show ?thesis using assms by (simp add: wf_world_def)
qed

lemma before_cores_frame [simp]:
  "gridSize (before_cores d w) = gridSize w"
  "cores (before_cores d w) = cores w"
  "energies (before_cores d w) = energies w"
  by (simp_all add: before_cores_def Let_def)

lemma step_frame [simp]: "gridSize (step d w) = gridSize w"
  by (simp add: step_def)

lemma step_wf:
  assumes "wf_world w"
  shows "wf_world (step d w)"
proof -
  let ?w1 = "shiftTemperature (shift_noise d) w"
  have w1: "wf_world ?w1"
    using assms shiftTemperature_range [of w "shift_noise d"] by (simp add: wf_world_def)
  have e: "wf_world ((emitPhase ?w1)\<lparr>phase := collect\<rparr>)"
    using w1 emitPhase_lower [of ?w1] emitPhase_upper [of ?w1] by (simp add: wf_world_def)
  have c: "wf_world ((collectPhase ?w1)\<lparr>phase := emit, tick := tick ?w1 + 1\<rparr>)"
    using w1 collectPhase_ranges [of ?w1] by (simp add: wf_world_def)
  have "wf_world (before_cores d w)"
    unfolding before_cores_def Let_def using e c by auto
  then show ?thesis
    unfolding step_def by (rule updateCores_wf)
qed

lemma floor_draw_in:
  assumes "unit_draw r" "0 < g"
  shows "0 \<le> \<lfloor>r * real g\<rfloor> \<and> \<lfloor>r * real g\<rfloor> < int g"
proof -
  have "0 \<le> r * real g" using assms by (simp add: unit_draw_def)
  moreover have "r * real g < real g" using assms by (simp add: unit_draw_def)
  ultimately show ?thesis by (simp add: floor_less_iff)
qed

lemma initializeCores_in:
  assumes "0 < g" "\<forall>i. unit_draw (rx i)" "\<forall>i. unit_draw (ry i)"
  shows "\<forall>c\<in>set (initializeCores rx ry g). core_in g c"
  using assms floor_draw_in by (auto simp: initializeCores_def core_in_def)

lemma generateTemperatureField_range:
  "grid_all g (\<lambda>v. 0 \<le> v \<and> v \<le> 1) (generateTemperatureField rnd g)"
  unfolding generateTemperatureField_def by (rule grid_all_table) (simp add: Let_def)

lemma upper_init_range:
  assumes "\<forall>x y. unit_draw (u x y)"
  shows "grid_all g (\<lambda>v. 0 \<le> v \<and> v \<le> 2) (map (\<lambda>x. map (\<lambda>y. u x y * 2) [0..<g]) [0..<g])"
proof (rule grid_all_table)
  fix x y
  have "unit_draw (u x y)" using assms by simp
  then show "0 \<le> u x y * 2 \<and> u x y * 2 \<le> 2" by (simp add: unit_draw_def)
qed

lemma WorldPhysics_wf:
  assumes "0 < g" "unit_world_draws d"
  shows "wf_world (WorldPhysics d g)"
proof -
  have "\<forall>c\<in>set (initializeCores (core_rx d) (core_ry d) g). core_in g c"
    using assms by (intro initializeCores_in) (simp_all add: unit_world_draws_def)
  moreover have "grid_all g (\<lambda>v. 0 \<le> v \<and> v \<le> 2)
                   (map (\<lambda>x. map (\<lambda>y. upper_init d x y * 2) [0..<g]) [0..<g])"
    using assms by (intro upper_init_range) (simp add: unit_world_draws_def)
  moreover have "grid_all g (\<lambda>v. 0 \<le> v) (replicate g (replicate g (0::real)))"
    by (rule grid_all_replicate) simp
  ultimately show ?thesis
    using assms(1) by (simp add: wf_world_def WorldPhysics_def generateTemperatureField_range)
qed

lemma reset_wf:
  assumes "wf_world w" "unit_world_draws d"
  shows "wf_world (reset d w)"
proof -
  let ?g = "gridSize w"
  have g: "0 < ?g" using assms(1) by (simp add: wf_world_def)
  have "\<forall>c\<in>set (initializeCores (core_rx d) (core_ry d) ?g). core_in ?g c"
    using g assms(2) by (intro initializeCores_in) (simp_all add: unit_world_draws_def)
  moreover have "grid_all ?g (\<lambda>v. 0 \<le> v \<and> v \<le> 2)
                   (map (\<lambda>x. map (\<lambda>y. upper_init d x y * 2) [0..<?g]) [0..<?g])"
    using assms(2) by (intro upper_init_range) (simp add: unit_world_draws_def)
  moreover have "grid_all ?g (\<lambda>v. 0 \<le> v) (replicate ?g (replicate ?g (0::real)))"
    by (rule grid_all_replicate) simp
  ultimately show ?thesis
    using g by (simp add: wf_world_def reset_def generateTemperatureField_range)
qed

lemma scheduleCoreMovement_in:
  assumes "\<forall>c\<in>set (cores w). core_in g c"
  shows "\<forall>c\<in>set (cores (scheduleCoreMovement cid dl w)). core_in g c"
proof (cases "findIndex (\<lambda>c. core_id c = cid) (cores w)")
  case None
  then show ?thesis using assms by (simp add: scheduleCoreMovement_def)
next
  case (Some j)
  then have j: "j < length (cores w)" by (simp add: findIndex_Some_iff)
  then have "core_in g (cores w ! j)" using assms by simp
  then have "core_in g ((cores w ! j)\<lparr>moveAfterTick := Some (tick w + dl)\<rparr>)"
    by (simp add: core_in_def)
  then show ?thesis
    using assms Some set_update_subset_insert [of "cores w" j]
    by (auto simp: scheduleCoreMovement_def)
qed

lemma consumeEnergy_wf:
  assumes "wf_world w"
  shows "wf_world (snd (consumeEnergy x y w))"
proof (cases "findIndex (energy_at x y) (energies w)")
  case None
  then show ?thesis using assms by (simp add: consumeEnergy_def)
next
  case (Some k)
  have "\<forall>c\<in>set (cores (scheduleCoreMovement (coreId (energies w ! k)) 3 w)).
          core_in (gridSize w) c"
    using assms by (intro scheduleCoreMovement_in) (simp add: wf_world_def)
  then show ?thesis
    using assms by (simp add: consumeEnergy_found [OF Some] wf_world_def)
qed

lemma reachable_wf:
  assumes "reachable w"
  shows "wf_world w"
  using assms
  by (induction rule: reachable.induct)
     (simp_all add: WorldPhysics_wf reset_wf step_wf consumeEnergy_wf)

text \<open>
  Claim C3. In every reachable world (a freshly constructed or reset world, then any
  sequence of \<^verbatim>\<open>step()\<close> calls, with any \<^verbatim>\<open>consumeEnergy\<close> calls in between, whatever the
  random draws are) the three fields are \<open>gridSize\<close> by \<open>gridSize\<close> arrays, every
  temperature cell lies in \<open>[0, 1]\<close>, every cell of the lower catalyser is at least 0, and
  every cell of the upper catalyser lies in \<open>[0, 2]\<close>.
\<close>

theorem reachable_field_ranges:
  assumes "reachable w"
  shows "length (temperature w) = gridSize w \<and> length (catalyser w) = gridSize w
         \<and> length (upper_catalyser w) = gridSize w
         \<and> (\<forall>x<gridSize w. length (temperature w ! x) = gridSize w
               \<and> length (catalyser w ! x) = gridSize w
               \<and> length (upper_catalyser w ! x) = gridSize w)
         \<and> (\<forall>x<gridSize w. \<forall>y<gridSize w.
               0 \<le> temperature w ! x ! y \<and> temperature w ! x ! y \<le> 1
               \<and> 0 \<le> catalyser w ! x ! y
               \<and> 0 \<le> upper_catalyser w ! x ! y \<and> upper_catalyser w ! x ! y \<le> 2)"
proof -
  have "wf_world w" using assms by (rule reachable_wf)
  then show ?thesis by (simp add: wf_world_def grid_all_def)
qed

lemma calm_draws_unit: "unit_world_draws calm_world_draws" "unit_step_draws calm_step_draws"
  by (simp_all add: unit_world_draws_def unit_step_draws_def calm_world_draws_def
      calm_step_draws_def unit_draw_def)

theorem reachable_field_ranges_witness:
  "reachable (step calm_step_draws (step calm_step_draws (WorldPhysics calm_world_draws 3)))
   \<and> 0 \<le> temperature (step calm_step_draws (step calm_step_draws
            (WorldPhysics calm_world_draws 3))) ! 1 ! 2
   \<and> temperature (step calm_step_draws (step calm_step_draws
            (WorldPhysics calm_world_draws 3))) ! 1 ! 2 \<le> 1
   \<and> 0 \<le> catalyser (step calm_step_draws (step calm_step_draws
            (WorldPhysics calm_world_draws 3))) ! 1 ! 2
   \<and> 0 \<le> upper_catalyser (step calm_step_draws (step calm_step_draws
            (WorldPhysics calm_world_draws 3))) ! 1 ! 2
   \<and> upper_catalyser (step calm_step_draws (step calm_step_draws
            (WorldPhysics calm_world_draws 3))) ! 1 ! 2 \<le> 2"
proof -
  let ?w = "step calm_step_draws (step calm_step_draws (WorldPhysics calm_world_draws 3))"
  have r: "reachable ?w"
    by (intro reachable.stepped reachable.constructed calm_draws_unit) simp
  have g: "gridSize ?w = 3" by (simp add: WorldPhysics_def)
  from reachable_field_ranges [OF r] have
    "\<forall>x<gridSize ?w. \<forall>y<gridSize ?w.
        0 \<le> temperature ?w ! x ! y \<and> temperature ?w ! x ! y \<le> 1
        \<and> 0 \<le> catalyser ?w ! x ! y
        \<and> 0 \<le> upper_catalyser ?w ! x ! y \<and> upper_catalyser ?w ! x ! y \<le> 2"
    by blast
  then have "0 \<le> temperature ?w ! 1 ! 2 \<and> temperature ?w ! 1 ! 2 \<le> 1
        \<and> 0 \<le> catalyser ?w ! 1 ! 2
        \<and> 0 \<le> upper_catalyser ?w ! 1 ! 2 \<and> upper_catalyser ?w ! 1 ! 2 \<le> 2"
    unfolding g by simp
  with r show ?thesis by blast
qed

section \<open>The state machine of a core\<close>

lemma delayed_move_same [simp]:
  "state (delayed_move g tk r c) = state c"
  "consecutiveHighTemp (delayed_move g tk r c) = consecutiveHighTemp c"
  "bloomTime (delayed_move g tk r c) = bloomTime c"
  "core_id (delayed_move g tk r c) = core_id c"
  by (simp_all add: delayed_move_def moveCore_def Let_def split: option.splits)

lemma moveCore_same [simp]:
  "state (moveCore r g c) = state c"
  "consecutiveHighTemp (moveCore r g c) = consecutiveHighTemp c"
  "bloomTime (moveCore r g c) = bloomTime c"
  "core_id (moveCore r g c) = core_id c"
  by (simp_all add: moveCore_def Let_def)

text \<open>
  One core, one round of the loop. \<open>cm\<close> is the core after its delayed move; the fields
  are read at the cell of \<open>cm\<close>.
\<close>

lemma core_step_dormant:
  fixes g :: nat and tk :: int and r1 :: real and c :: core
    and t :: "real list list" and low :: "real list list"
  assumes "state c = dormant"
  defines "cm \<equiv> delayed_move g tk r1 c"
  defines "hot \<equiv> 0.2 < cell t (core_x cm) (core_y cm)"
  defines "fed \<equiv> 0.2 < cell low (core_x cm) (core_y cm)"
  shows "core_step g tk t r1 r2 (c, low, es) =
           ((if fed
             then cm\<lparr>state := incubated, incubationTime := tk,
                     consecutiveHighTemp := (if hot then 1 else 0)\<rparr>
             else cm),
            low, es)"
  using assms by (simp add: core_step_def Let_def)

lemma core_step_incubated:
  fixes g :: nat and tk :: int and r1 :: real and c :: core and t :: "real list list"
  assumes "state c = incubated"
  defines "cm \<equiv> delayed_move g tk r1 c"
  defines "hot \<equiv> 0.2 < cell t (core_x cm) (core_y cm)"
  shows "core_step g tk t r1 r2 (c, low, es) =
           (if hot \<and> 4 \<le> consecutiveHighTemp c
            then (cm\<lparr>consecutiveHighTemp := consecutiveHighTemp c + 1, state := bloomed,
                      bloomTime := tk\<rparr>,
                  low, es @ [new_energy tk cm])
            else (cm\<lparr>consecutiveHighTemp := (if hot then consecutiveHighTemp c + 1 else 0)\<rparr>,
                  low, es))"
  using assms by (simp add: core_step_def Let_def)

lemma core_step_bloomed:
  fixes g :: nat and tk :: int and r1 :: real and c :: core
  assumes "state c = bloomed"
  defines "cm \<equiv> delayed_move g tk r1 c"
  shows "core_step g tk t r1 r2 (c, low, es) =
           (if 5 \<le> tk - bloomTime c
            then (moveCore r2 g (cm\<lparr>state := dormant, consecutiveHighTemp := 0\<rparr>),
                  set_cell low (nat (core_x cm)) (nat (core_y cm))
                    (cell low (core_x cm) (core_y cm) + 0.1),
                  es)
            else (cm, low, es))"
  using assms by (simp add: core_step_def Let_def)

text \<open>The loop, core by core.\<close>

lemma cores_loop_append:
  "cores_loop g tk t r1 r2 k (xs @ ys) st =
     (fst (cores_loop g tk t r1 r2 k xs st)
        @ fst (cores_loop g tk t r1 r2 (k + length xs) ys (snd (cores_loop g tk t r1 r2 k xs st))),
      snd (cores_loop g tk t r1 r2 (k + length xs) ys (snd (cores_loop g tk t r1 r2 k xs st))))"
  by (induction xs arbitrary: k st) (simp_all add: Let_def)

lemma cores_loop_snoc:
  assumes "i < length cs"
  shows "snd (cores_loop g tk t r1 r2 k (take (Suc i) cs) st) =
           snd (core_step g tk t (r1 (k + i)) (r2 (k + i))
                  (cs ! i, snd (cores_loop g tk t r1 r2 k (take i cs) st)))"
proof -
  have "take (Suc i) cs = take i cs @ [cs ! i]"
    using assms by (simp add: take_Suc_conv_app_nth)
  then show ?thesis
    using assms by (simp add: cores_loop_append Let_def min_def)
qed

lemma cores_loop_nth:
  assumes "i < length cs"
  shows "fst (cores_loop g tk t r1 r2 k cs st) ! i =
           fst (core_step g tk t (r1 (k + i)) (r2 (k + i))
                  (cs ! i, snd (cores_loop g tk t r1 r2 k (take i cs) st)))"
proof -
  have split: "cs = take i cs @ cs ! i # drop (Suc i) cs"
    using assms by (simp add: id_take_nth_drop)
  have "fst (cores_loop g tk t r1 r2 k (take i cs @ cs ! i # drop (Suc i) cs) st) ! i =
          fst (core_step g tk t (r1 (k + i)) (r2 (k + i))
                 (cs ! i, snd (cores_loop g tk t r1 r2 k (take i cs) st)))"
    using assms by (simp add: cores_loop_append Let_def nth_append min_def)
  with split show ?thesis by simp
qed

lemma updateCores_tick [simp]: "tick (step d w) = tick (before_cores d w)"
  by (simp add: step_def)

lemma step_temperature: "temperature (step d w) = temperature (before_cores d w)"
  by (simp add: step_def)

lemma step_cores_length [simp]: "length (cores (step d w)) = length (cores w)"
  by (simp add: step_def updateCores_def Let_def)

lemma step_core:
  assumes "i < length (cores w)"
  shows "cores (step d w) ! i =
           fst (core_step (gridSize w) (tick (step d w)) (temperature (step d w))
                  (move_early d i) (move_late d i) (cores w ! i, seen_by d w i))"
  using assms
  by (simp add: step_def updateCores_def Let_def cores_loop_nth seen_by_def)

lemma seen_by_0: "seen_by d w 0 = (catalyser (before_cores d w), energies w)"
  by (simp add: seen_by_def Let_def)

lemma seen_by_Suc:
  assumes "i < length (cores w)"
  shows "seen_by d w (Suc i) =
           snd (core_step (gridSize w) (tick (step d w)) (temperature (step d w))
                  (move_early d i) (move_late d i) (cores w ! i, seen_by d w i))"
  using assms
  by (simp add: step_def updateCores_def Let_def cores_loop_snoc seen_by_def)

lemma step_energies:
  "energies (step d w) =
     filter (\<lambda>e. \<not> expired (tick (step d w)) e) (snd (seen_by d w (length (cores w))))"
  by (simp add: step_def updateCores_def Let_def seen_by_def)

lemma step_catalyser: "catalyser (step d w) = fst (seen_by d w (length (cores w)))"
  by (simp add: step_def updateCores_def Let_def seen_by_def)

lemma core_step_energies_grow:
  "set (snd (snd st)) \<subseteq> set (snd (snd (core_step g tk t r1 r2 st)))"
  by (auto simp: core_step_def Let_def)

lemma seen_by_energies_grow:
  assumes "j \<le> k" "k \<le> length (cores w)"
  shows "set (snd (seen_by d w j)) \<subseteq> set (snd (seen_by d w k))"
  using assms
proof (induction k)
  case 0
  then show ?case by simp
next
  case (Suc k)
  show ?case
  proof (cases "j = Suc k")
    case True
    then show ?thesis by simp
  next
    case False
    then have "j \<le> k" using Suc.prems by simp
    then have "set (snd (seen_by d w j)) \<subseteq> set (snd (seen_by d w k))"
      using Suc by simp
    moreover have "set (snd (seen_by d w k)) \<subseteq> set (snd (seen_by d w (Suc k)))"
      using Suc.prems core_step_energies_grow [of "(cores w ! k, seen_by d w k)"]
      by (simp add: seen_by_Suc)
    ultimately show ?thesis by blast
  qed
qed

text \<open>One step of the world, seen from the core of index \<open>i\<close>.\<close>

lemma step_core_dormant:
  assumes "i < length (cores w)" "state (cores w ! i) = dormant"
  shows "cores (step d w) ! i =
           (if 0.2 < cell (fst (seen_by d w i)) (core_x (core_at_read d w i))
                      (core_y (core_at_read d w i))
            then (core_at_read d w i)
                   \<lparr>state := incubated, incubationTime := tick (step d w),
                    consecutiveHighTemp :=
                      (if 0.2 < cell (temperature (step d w)) (core_x (core_at_read d w i))
                                 (core_y (core_at_read d w i))
                       then 1 else 0)\<rparr>
            else core_at_read d w i)"
    and "snd (seen_by d w (Suc i)) = snd (seen_by d w i)"
proof -
  have eq: "(cores w ! i, seen_by d w i) = (cores w ! i, fst (seen_by d w i), snd (seen_by d w i))"
    by simp
  show "cores (step d w) ! i =
           (if 0.2 < cell (fst (seen_by d w i)) (core_x (core_at_read d w i))
                      (core_y (core_at_read d w i))
            then (core_at_read d w i)
                   \<lparr>state := incubated, incubationTime := tick (step d w),
                    consecutiveHighTemp :=
                      (if 0.2 < cell (temperature (step d w)) (core_x (core_at_read d w i))
                                 (core_y (core_at_read d w i))
                       then 1 else 0)\<rparr>
            else core_at_read d w i)"
    unfolding step_core [OF assms(1)] eq core_step_dormant [OF assms(2)]
    by (simp add: core_at_read_def)
  show "snd (seen_by d w (Suc i)) = snd (seen_by d w i)"
    unfolding seen_by_Suc [OF assms(1)] eq core_step_dormant [OF assms(2)]
    by simp
qed

lemma step_core_incubated:
  assumes "i < length (cores w)" "state (cores w ! i) = incubated"
  shows "cores (step d w) ! i =
           (if 0.2 < cell (temperature (step d w)) (core_x (core_at_read d w i))
                      (core_y (core_at_read d w i))
               \<and> 4 \<le> consecutiveHighTemp (cores w ! i)
            then (core_at_read d w i)
                   \<lparr>consecutiveHighTemp := consecutiveHighTemp (cores w ! i) + 1,
                    state := bloomed, bloomTime := tick (step d w)\<rparr>
            else (core_at_read d w i)
                   \<lparr>consecutiveHighTemp :=
                      (if 0.2 < cell (temperature (step d w)) (core_x (core_at_read d w i))
                                 (core_y (core_at_read d w i))
                       then consecutiveHighTemp (cores w ! i) + 1 else 0)\<rparr>)"
    and "snd (seen_by d w (Suc i)) =
           (if 0.2 < cell (temperature (step d w)) (core_x (core_at_read d w i))
                      (core_y (core_at_read d w i))
               \<and> 4 \<le> consecutiveHighTemp (cores w ! i)
            then snd (seen_by d w i) @ [new_energy (tick (step d w)) (core_at_read d w i)]
            else snd (seen_by d w i))"
proof -
  have eq: "(cores w ! i, seen_by d w i) = (cores w ! i, fst (seen_by d w i), snd (seen_by d w i))"
    by simp
  show "cores (step d w) ! i =
           (if 0.2 < cell (temperature (step d w)) (core_x (core_at_read d w i))
                      (core_y (core_at_read d w i))
               \<and> 4 \<le> consecutiveHighTemp (cores w ! i)
            then (core_at_read d w i)
                   \<lparr>consecutiveHighTemp := consecutiveHighTemp (cores w ! i) + 1,
                    state := bloomed, bloomTime := tick (step d w)\<rparr>
            else (core_at_read d w i)
                   \<lparr>consecutiveHighTemp :=
                      (if 0.2 < cell (temperature (step d w)) (core_x (core_at_read d w i))
                                 (core_y (core_at_read d w i))
                       then consecutiveHighTemp (cores w ! i) + 1 else 0)\<rparr>)"
    unfolding step_core [OF assms(1)] eq core_step_incubated [OF assms(2)]
    by (simp add: core_at_read_def)
  show "snd (seen_by d w (Suc i)) =
           (if 0.2 < cell (temperature (step d w)) (core_x (core_at_read d w i))
                      (core_y (core_at_read d w i))
               \<and> 4 \<le> consecutiveHighTemp (cores w ! i)
            then snd (seen_by d w i) @ [new_energy (tick (step d w)) (core_at_read d w i)]
            else snd (seen_by d w i))"
    unfolding seen_by_Suc [OF assms(1)] eq core_step_incubated [OF assms(2)]
    by (simp add: core_at_read_def)
qed

lemma step_core_bloomed:
  assumes "i < length (cores w)" "state (cores w ! i) = bloomed"
  shows "cores (step d w) ! i =
           (if 5 \<le> tick (step d w) - bloomTime (cores w ! i)
            then moveCore (move_late d i) (gridSize w)
                   ((core_at_read d w i)\<lparr>state := dormant, consecutiveHighTemp := 0\<rparr>)
            else core_at_read d w i)"
    and "snd (seen_by d w (Suc i)) = snd (seen_by d w i)"
proof -
  have eq: "(cores w ! i, seen_by d w i) = (cores w ! i, fst (seen_by d w i), snd (seen_by d w i))"
    by simp
  show "cores (step d w) ! i =
           (if 5 \<le> tick (step d w) - bloomTime (cores w ! i)
            then moveCore (move_late d i) (gridSize w)
                   ((core_at_read d w i)\<lparr>state := dormant, consecutiveHighTemp := 0\<rparr>)
            else core_at_read d w i)"
    unfolding step_core [OF assms(1)] eq core_step_bloomed [OF assms(2)]
    by (simp add: core_at_read_def)
  show "snd (seen_by d w (Suc i)) = snd (seen_by d w i)"
    unfolding seen_by_Suc [OF assms(1)] eq core_step_bloomed [OF assms(2)]
    by simp
qed

lemma core_at_read_same [simp]:
  "state (core_at_read d w i) = state (cores w ! i)"
  "consecutiveHighTemp (core_at_read d w i) = consecutiveHighTemp (cores w ! i)"
  "bloomTime (core_at_read d w i) = bloomTime (cores w ! i)"
  "core_id (core_at_read d w i) = core_id (cores w ! i)"
  by (simp_all add: core_at_read_def)

lemma bloom_now:
  assumes "i < length (cores w)" "state (cores w ! i) \<noteq> bloomed"
    "state (cores (step d w) ! i) = bloomed"
  shows "state (cores w ! i) = incubated \<and> 4 \<le> consecutiveHighTemp (cores w ! i)
         \<and> warm_at (step d w) i"
proof (cases "state (cores w ! i)")
  case dormant
  from assms(3) show ?thesis
    unfolding step_core_dormant(1) [OF assms(1) dormant]
    by (simp add: dormant split: if_splits)
next
  case incubated
  from assms(3) show ?thesis
    unfolding warm_at_def step_core_incubated(1) [OF assms(1) incubated]
    by (simp add: incubated split: if_splits)
next
  case bloomed
  with assms(2) show ?thesis by simp
qed

lemma counting_back:
  assumes "i < length (cores w)" "state (cores (step d w) ! i) = incubated"
    "Suc n \<le> consecutiveHighTemp (cores (step d w) ! i)"
  shows "warm_at (step d w) i
         \<and> (1 \<le> n \<longrightarrow> state (cores w ! i) = incubated \<and> n \<le> consecutiveHighTemp (cores w ! i))"
proof (cases "state (cores w ! i)")
  case dormant
  from assms(2,3) show ?thesis
    unfolding warm_at_def step_core_dormant(1) [OF assms(1) dormant]
    by (simp add: dormant split: if_splits)
next
  case incubated
  from assms(2,3) show ?thesis
    unfolding warm_at_def step_core_incubated(1) [OF assms(1) incubated]
    by (simp add: incubated split: if_splits)
next
  case bloomed
  from assms(2) show ?thesis
    unfolding step_core_bloomed(1) [OF assms(1) bloomed]
    by (simp add: bloomed split: if_splits)
qed

lemma five_warm_steps:
  assumes i: "i < length (cores w)"
    and before: "state (cores (step d4 (step d3 (step d2 (step d1 w)))) ! i) \<noteq> bloomed"
    and after: "state (cores (step d5 (step d4 (step d3 (step d2 (step d1 w))))) ! i) = bloomed"
  shows "warm_at (step d1 w) i \<and> state (cores (step d1 w) ! i) = incubated
         \<and> warm_at (step d2 (step d1 w)) i
         \<and> state (cores (step d2 (step d1 w)) ! i) = incubated
         \<and> warm_at (step d3 (step d2 (step d1 w))) i
         \<and> state (cores (step d3 (step d2 (step d1 w))) ! i) = incubated
         \<and> warm_at (step d4 (step d3 (step d2 (step d1 w)))) i
         \<and> state (cores (step d4 (step d3 (step d2 (step d1 w)))) ! i) = incubated
         \<and> warm_at (step d5 (step d4 (step d3 (step d2 (step d1 w))))) i"
proof -
  let ?w1 = "step d1 w"
  let ?w2 = "step d2 ?w1"
  let ?w3 = "step d3 ?w2"
  let ?w4 = "step d4 ?w3"
  let ?w5 = "step d5 ?w4"
  have i1: "i < length (cores ?w1)" and i2: "i < length (cores ?w2)"
    and i3: "i < length (cores ?w3)" and i4: "i < length (cores ?w4)"
    using i by simp_all
  from bloom_now [OF i4 before after]
  have s4: "state (cores ?w4 ! i) = incubated" and n4: "Suc 3 \<le> consecutiveHighTemp (cores ?w4 ! i)"
    and h5: "warm_at ?w5 i"
    by simp_all
  from counting_back [OF i3 s4 n4]
  have h4: "warm_at ?w4 i" and s3: "state (cores ?w3 ! i) = incubated"
    and n3: "Suc 2 \<le> consecutiveHighTemp (cores ?w3 ! i)"
    by simp_all
  from counting_back [OF i2 s3 n3]
  have h3: "warm_at ?w3 i" and s2: "state (cores ?w2 ! i) = incubated"
    and n2: "Suc 1 \<le> consecutiveHighTemp (cores ?w2 ! i)"
    by simp_all
  from counting_back [OF i1 s2 n2]
  have h2: "warm_at ?w2 i" and s1: "state (cores ?w1 ! i) = incubated"
    and n1: "Suc 0 \<le> consecutiveHighTemp (cores ?w1 ! i)"
    by simp_all
  from counting_back [OF i s1 n1]
  have h1: "warm_at ?w1 i"
    by simp
  from h1 h2 h3 h4 h5 s1 s2 s3 s4 show ?thesis by simp
qed

lemma bloom_energy_kept:
  assumes i: "i < length (cores w)" and inc: "state (cores w ! i) = incubated"
    and bl: "state (cores (step d w) ! i) = bloomed"
  shows "new_energy (tick (step d w)) (cores (step d w) ! i) \<in> set (energies (step d w))"
proof -
  let ?e = "new_energy (tick (step d w)) (core_at_read d w i)"
  have cond: "0.2 < cell (temperature (step d w)) (core_x (core_at_read d w i))
                      (core_y (core_at_read d w i))
               \<and> 4 \<le> consecutiveHighTemp (cores w ! i)"
    using bl unfolding step_core_incubated(1) [OF i inc]
    by (simp add: inc split: if_splits)
  then have "?e \<in> set (snd (seen_by d w (Suc i)))"
    unfolding step_core_incubated(2) [OF i inc] by simp
  moreover have "set (snd (seen_by d w (Suc i))) \<subseteq> set (snd (seen_by d w (length (cores w))))"
    using i by (intro seen_by_energies_grow) simp_all
  moreover have "\<not> expired (tick (step d w)) ?e"
    by (simp add: expired_def new_energy_def)
  ultimately have "?e \<in> set (energies (step d w))"
    unfolding step_energies by auto
  moreover have "new_energy (tick (step d w)) (cores (step d w) ! i) = ?e"
    using cond unfolding step_core_incubated(1) [OF i inc]
    by (simp add: new_energy_def)
  ultimately show ?thesis by simp
qed

text \<open>The run of the one-cell world: incubated in the first step, bloomed in the fifth.\<close>

lemmas step_eval =
  step_def before_cores_def shiftTemperature_def emitPhase_def collectPhase_def
  collect_cell_def collect_neighbours_def block_offsets_def updateCores_def
  core_step_def delayed_move_def new_energy_def calm_step_draws_def
  grid_cells_def shifted_def diffuse_cell_def neighbour_offsets_def wrap_def set_cell_def
  cell_def Let_def expired_def

lemma seed_run_1:
  "seed_run 1 =
     \<lparr>gridSize = 1, tick = 0, phase = collect, temperature = [[1/2]], catalyser = [[1]],
      cores = [seed_core\<lparr>state := incubated, consecutiveHighTemp := 1\<rparr>], energies = [],
      upper_catalyser = [[4/5]]\<rparr>"
  by (simp add: seed_run_def seed_world_def seed_core_def step_eval)

lemma seed_run_2:
  "seed_run 2 =
     \<lparr>gridSize = 1, tick = 1, phase = emit, temperature = [[1/2]], catalyser = [[0]],
      cores = [seed_core\<lparr>state := incubated, consecutiveHighTemp := 2\<rparr>], energies = [],
      upper_catalyser = [[9/5]]\<rparr>"
proof -
  have "seed_run 2 = step calm_step_draws (seed_run 1)"
    by (simp add: seed_run_def numeral_2_eq_2)
  then show ?thesis
    unfolding seed_run_1 by (simp add: seed_core_def step_eval)
qed

lemma seed_run_3:
  "seed_run 3 =
     \<lparr>gridSize = 1, tick = 1, phase = collect, temperature = [[1/2]], catalyser = [[9/5]],
      cores = [seed_core\<lparr>state := incubated, consecutiveHighTemp := 3\<rparr>], energies = [],
      upper_catalyser = [[36/25]]\<rparr>"
proof -
  have "seed_run 3 = step calm_step_draws (seed_run 2)"
    by (simp add: seed_run_def numeral_3_eq_3 numeral_2_eq_2)
  then show ?thesis
    unfolding seed_run_2 by (simp add: seed_core_def step_eval)
qed

lemma seed_run_4:
  "seed_run 4 =
     \<lparr>gridSize = 1, tick = 2, phase = emit, temperature = [[1/2]], catalyser = [[0]],
      cores = [seed_core\<lparr>state := incubated, consecutiveHighTemp := 4\<rparr>], energies = [],
      upper_catalyser = [[2]]\<rparr>"
proof -
  have "seed_run 4 = step calm_step_draws (seed_run 3)"
    by (simp add: seed_run_def eval_nat_numeral)
  then show ?thesis
    unfolding seed_run_3 by (simp add: seed_core_def step_eval)
qed

lemma seed_run_5:
  "seed_run 5 =
     \<lparr>gridSize = 1, tick = 2, phase = collect, temperature = [[1/2]], catalyser = [[2]],
      cores = [seed_core\<lparr>state := bloomed, consecutiveHighTemp := 5, bloomTime := 2\<rparr>],
      energies = [\<lparr>en_x = 0, en_y = 0, createdAt = 2, active = True, coreId = 0\<rparr>],
      upper_catalyser = [[8/5]]\<rparr>"
proof -
  have "seed_run 5 = step calm_step_draws (seed_run 4)"
    by (simp add: seed_run_def eval_nat_numeral)
  then show ?thesis
    unfolding seed_run_4 by (simp add: seed_core_def step_eval)
qed

lemma seed_run_6:
  "seed_run 6 =
     \<lparr>gridSize = 1, tick = 3, phase = emit, temperature = [[1/2]], catalyser = [[0]],
      cores = [seed_core\<lparr>state := bloomed, consecutiveHighTemp := 5, bloomTime := 2\<rparr>],
      energies = [\<lparr>en_x = 0, en_y = 0, createdAt = 2, active = True, coreId = 0\<rparr>],
      upper_catalyser = [[2]]\<rparr>"
proof -
  have "seed_run 6 = step calm_step_draws (seed_run 5)"
    by (simp add: seed_run_def eval_nat_numeral)
  then show ?thesis
    unfolding seed_run_5 by (simp add: seed_core_def step_eval)
qed

lemma seed_run_7:
  "seed_run 7 =
     \<lparr>gridSize = 1, tick = 3, phase = collect, temperature = [[1/2]], catalyser = [[2]],
      cores = [seed_core\<lparr>state := bloomed, consecutiveHighTemp := 5, bloomTime := 2\<rparr>],
      energies = [\<lparr>en_x = 0, en_y = 0, createdAt = 2, active = True, coreId = 0\<rparr>],
      upper_catalyser = [[8/5]]\<rparr>"
proof -
  have "seed_run 7 = step calm_step_draws (seed_run 6)"
    by (simp add: seed_run_def eval_nat_numeral)
  then show ?thesis
    unfolding seed_run_6 by (simp add: seed_core_def step_eval)
qed

lemma seed_run_8:
  "seed_run 8 =
     \<lparr>gridSize = 1, tick = 4, phase = emit, temperature = [[1/2]], catalyser = [[0]],
      cores = [seed_core\<lparr>state := bloomed, consecutiveHighTemp := 5, bloomTime := 2\<rparr>],
      energies = [\<lparr>en_x = 0, en_y = 0, createdAt = 2, active = True, coreId = 0\<rparr>],
      upper_catalyser = [[2]]\<rparr>"
proof -
  have "seed_run 8 = step calm_step_draws (seed_run 7)"
    by (simp add: seed_run_def eval_nat_numeral)
  then show ?thesis
    unfolding seed_run_7 by (simp add: seed_core_def step_eval)
qed

lemma seed_run_9:
  "seed_run 9 =
     \<lparr>gridSize = 1, tick = 4, phase = collect, temperature = [[1/2]], catalyser = [[2]],
      cores = [seed_core\<lparr>state := bloomed, consecutiveHighTemp := 5, bloomTime := 2\<rparr>],
      energies = [\<lparr>en_x = 0, en_y = 0, createdAt = 2, active = True, coreId = 0\<rparr>],
      upper_catalyser = [[8/5]]\<rparr>"
proof -
  have "seed_run 9 = step calm_step_draws (seed_run 8)"
    by (simp add: seed_run_def eval_nat_numeral)
  then show ?thesis
    unfolding seed_run_8 by (simp add: seed_core_def step_eval)
qed

lemma seed_run_10:
  "seed_run 10 =
     \<lparr>gridSize = 1, tick = 5, phase = emit, temperature = [[1/2]], catalyser = [[0]],
      cores = [seed_core\<lparr>state := bloomed, consecutiveHighTemp := 5, bloomTime := 2\<rparr>],
      energies = [\<lparr>en_x = 0, en_y = 0, createdAt = 2, active = True, coreId = 0\<rparr>],
      upper_catalyser = [[2]]\<rparr>"
proof -
  have "seed_run 10 = step calm_step_draws (seed_run 9)"
    by (simp add: seed_run_def eval_nat_numeral)
  then show ?thesis
    unfolding seed_run_9 by (simp add: seed_core_def step_eval)
qed

lemma seed_run_11:
  "seed_run 11 =
     \<lparr>gridSize = 1, tick = 5, phase = collect, temperature = [[1/2]], catalyser = [[2]],
      cores = [seed_core\<lparr>state := bloomed, consecutiveHighTemp := 5, bloomTime := 2\<rparr>],
      energies = [\<lparr>en_x = 0, en_y = 0, createdAt = 2, active = True, coreId = 0\<rparr>],
      upper_catalyser = [[8/5]]\<rparr>"
proof -
  have "seed_run 11 = step calm_step_draws (seed_run 10)"
    by (simp add: seed_run_def eval_nat_numeral)
  then show ?thesis
    unfolding seed_run_10 by (simp add: seed_core_def step_eval)
qed

lemma seed_run_12:
  "seed_run 12 =
     \<lparr>gridSize = 1, tick = 6, phase = emit, temperature = [[1/2]], catalyser = [[0]],
      cores = [seed_core\<lparr>state := bloomed, consecutiveHighTemp := 5, bloomTime := 2\<rparr>],
      energies = [\<lparr>en_x = 0, en_y = 0, createdAt = 2, active = True, coreId = 0\<rparr>],
      upper_catalyser = [[2]]\<rparr>"
proof -
  have "seed_run 12 = step calm_step_draws (seed_run 11)"
    by (simp add: seed_run_def eval_nat_numeral)
  then show ?thesis
    unfolding seed_run_11 by (simp add: seed_core_def step_eval)
qed

lemma seed_run_13:
  "seed_run 13 =
     \<lparr>gridSize = 1, tick = 6, phase = collect, temperature = [[1/2]], catalyser = [[2]],
      cores = [seed_core\<lparr>state := bloomed, consecutiveHighTemp := 5, bloomTime := 2\<rparr>],
      energies = [\<lparr>en_x = 0, en_y = 0, createdAt = 2, active = True, coreId = 0\<rparr>],
      upper_catalyser = [[8/5]]\<rparr>"
proof -
  have "seed_run 13 = step calm_step_draws (seed_run 12)"
    by (simp add: seed_run_def eval_nat_numeral)
  then show ?thesis
    unfolding seed_run_12 by (simp add: seed_core_def step_eval)
qed

lemma seed_run_14:
  "seed_run 14 =
     \<lparr>gridSize = 1, tick = 7, phase = emit, temperature = [[1/2]], catalyser = [[1/10]],
      cores = [seed_core\<lparr>bloomTime := 2\<rparr>], energies = [], upper_catalyser = [[2]]\<rparr>"
proof -
  have "seed_run 14 = step calm_step_draws (seed_run 13)"
    by (simp add: seed_run_def eval_nat_numeral)
  then show ?thesis
    unfolding seed_run_13 by (simp add: seed_core_def step_eval moveCore_def moves_def)
qed

lemma seed_run_steps:
  "step calm_step_draws seed_world = seed_run 1"
  "step calm_step_draws (seed_run 1) = seed_run 2"
  "step calm_step_draws (seed_run 2) = seed_run 3"
  "step calm_step_draws (seed_run 3) = seed_run 4"
  "step calm_step_draws (seed_run 4) = seed_run 5"
  "step calm_step_draws (seed_run 13) = seed_run 14"
  by (simp_all add: seed_run_def eval_nat_numeral)

lemma ripe_step:
  "step calm_step_draws ripe_world =
     \<lparr>gridSize = 2, tick = 4, phase = collect, temperature = [[1/2, 1/2], [1/2, 1/2]],
      catalyser = [[0, 0], [0, 0]],
      cores = [seed_core, ripe_core\<lparr>state := bloomed, consecutiveHighTemp := 5, bloomTime := 4\<rparr>],
      energies = [\<lparr>en_x = 1, en_y = 0, createdAt = 4, active = True, coreId = 1\<rparr>],
      upper_catalyser = [[0, 0], [0, 0]]\<rparr>"
  by (simp add: ripe_world_def ripe_core_def seed_core_def step_eval upt_rec)

lemma step_clock:
  "tick (step d w) = (if phase w = emit then tick w else tick w + 1)"
  "phase (step d w) = (if phase w = emit then collect else emit)"
  by (cases "phase w";
      simp add: step_def updateCores_def before_cores_def shiftTemperature_def emitPhase_def
        collectPhase_def Let_def)+

text \<open>
  The counter \<open>tick\<close> advances once per two calls of \<^verbatim>\<open>step()\<close>, and the two delays of the
  state machine are not in the same unit. In the run of the one-cell world the core is
  dormant at tick 0 and bloomed, with the bloom tick 2, after five calls, when the counter
  has advanced by 2 only: five ticks of the counter have not passed. Five calls after the
  bloom, after the tenth call, the counter is 5, three more than the bloom tick, and the
  core is still bloomed. So neither a call nor a tick of the counter is a unit for which
  the bloom comes only after 5 warm ticks and the return to dormant 5 ticks after the
  bloom.
\<close>

theorem five_ticks_counterexample:
  "state (cores seed_world ! 0) = dormant \<and> tick seed_world = 0
   \<and> seed_run 5 = (step calm_step_draws ^^ 5) seed_world
   \<and> state (cores (seed_run 5) ! 0) = bloomed \<and> tick (seed_run 5) = 2
   \<and> bloomTime (cores (seed_run 5) ! 0) = 2
   \<and> seed_run 10 = (step calm_step_draws ^^ 5) (seed_run 5)
   \<and> state (cores (seed_run 10) ! 0) = bloomed \<and> tick (seed_run 10) = 5"
proof -
  have "seed_run 10 = (step calm_step_draws ^^ 5) (seed_run 5)"
    by (simp add: seed_run_def eval_nat_numeral)
  moreover have "seed_run 5 = (step calm_step_draws ^^ 5) seed_world"
    by (simp add: seed_run_def)
  moreover have "state (cores seed_world ! 0) = dormant \<and> tick seed_world = 0"
    by (simp add: seed_world_def seed_core_def)
  moreover have "state (cores (seed_run 5) ! 0) = bloomed \<and> tick (seed_run 5) = 2
                 \<and> bloomTime (cores (seed_run 5) ! 0) = 2"
    by (simp add: seed_run_5)
  moreover have "state (cores (seed_run 10) ! 0) = bloomed \<and> tick (seed_run 10) = 5"
    by (simp add: seed_run_10)
  ultimately show ?thesis by (intro conjI) simp_all
qed

text \<open>
  Claim C2, as the code has it. Let \<open>c\<close> be the core of index \<open>i\<close> of any world \<open>w\<close> and
  \<open>c'\<close> the same core after one \<^verbatim>\<open>step()\<close> with any draws \<open>d\<close>. The loop of \<^verbatim>\<open>updateCores\<close>
  reads the fields at the cell of \<open>cm\<close>, the core after its delayed move: \<open>fed\<close> says that
  the lower catalyser there exceeds 0.2, \<open>hot\<close> that the temperature there exceeds 0.2.
  \<^item> A dormant core stays dormant or becomes incubated, and becomes incubated exactly when
    \<open>fed\<close>; its counter then is 1 if \<open>hot\<close> and 0 otherwise.
  \<^item> An incubated core stays incubated or becomes bloomed; its counter of consecutive warm
    calls of \<^verbatim>\<open>step()\<close> goes up by one if \<open>hot\<close> and back to 0 otherwise; it blooms exactly
    when \<open>hot\<close> and the counter was at least 4, that is when the counter reaches 5. The
    bloom records the tick and leaves the core on its cell, and it appends exactly one
    energy manifestation, with the coordinates of that cell, the tick, and the id of the
    core, which is in the energy list after the step.
  \<^item> A bloomed core stays bloomed or becomes dormant, and becomes dormant exactly when the
    counter \<open>tick\<close> is at least 5 more than the recorded bloom tick.
  \<^item> No other core appends an energy manifestation.
  \<^item> The counter \<open>tick\<close> goes up by one in the calls that start in the phase
    \<open>collect\<close> and stays in those that start in the phase \<open>emit\<close>, and the phase alternates:
    the counter advances once per two calls.
  So no transition skips a state or goes backwards. The bloom counts calls of \<^verbatim>\<open>step()\<close>,
  as the last part says: if the core is not bloomed after four calls and bloomed after the
  fifth, then it was incubated after each of the first four calls, and in each of the five
  calls the temperature at its cell exceeded 0.2. The return to dormant counts ticks of
  the counter, two calls each.
\<close>

theorem core_state_machine:
  assumes i: "i < length (cores w)"
  shows "(let c = cores w ! i; c' = cores (step d w) ! i; cm = core_at_read d w i;
             tk = tick (step d w);
             hot = (0.2 < cell (temperature (step d w)) (core_x cm) (core_y cm));
             fed = (0.2 < cell (fst (seen_by d w i)) (core_x cm) (core_y cm))
         in (state c = dormant \<longrightarrow>
                  (state c' = dormant \<or> state c' = incubated)
                  \<and> (state c' = incubated \<longleftrightarrow> fed)
                  \<and> (state c' = incubated \<longrightarrow> consecutiveHighTemp c' = (if hot then 1 else 0)))
             \<and> (state c = incubated \<longrightarrow>
                  (state c' = incubated \<or> state c' = bloomed)
                  \<and> (state c' = bloomed \<longleftrightarrow> hot \<and> 4 \<le> consecutiveHighTemp c)
                  \<and> consecutiveHighTemp c' = (if hot then consecutiveHighTemp c + 1 else 0)
                  \<and> (state c' = bloomed \<longrightarrow>
                        bloomTime c' = tk \<and> core_x c' = core_x cm \<and> core_y c' = core_y cm
                        \<and> \<lparr>en_x = core_x cm, en_y = core_y cm, createdAt = tk, active = True, coreId = core_id c\<rparr>
                            \<in> set (energies (step d w))))
             \<and> (state c = bloomed \<longrightarrow>
                  (state c' = bloomed \<or> state c' = dormant)
                  \<and> (state c' = dormant \<longleftrightarrow> 5 \<le> tk - bloomTime c))
             \<and> snd (seen_by d w (Suc i)) =
                  snd (seen_by d w i)
                    @ (if state c = incubated \<and> state c' = bloomed
                       then [\<lparr>en_x = core_x cm, en_y = core_y cm, createdAt = tk, active = True, coreId = core_id c\<rparr>]
                       else [])
             \<and> core_id c' = core_id c
             \<and> tk = (if phase w = emit then tick w else tick w + 1)
             \<and> phase (step d w) = (if phase w = emit then collect else emit))
         \<and> (state (cores (step d4 (step d3 (step d2 (step d1 w)))) ! i) \<noteq> bloomed
              \<and> state (cores (step d5 (step d4 (step d3 (step d2 (step d1 w))))) ! i) = bloomed
            \<longrightarrow> warm_at (step d1 w) i \<and> state (cores (step d1 w) ! i) = incubated
                \<and> warm_at (step d2 (step d1 w)) i
                \<and> state (cores (step d2 (step d1 w)) ! i) = incubated
                \<and> warm_at (step d3 (step d2 (step d1 w))) i
                \<and> state (cores (step d3 (step d2 (step d1 w))) ! i) = incubated
                \<and> warm_at (step d4 (step d3 (step d2 (step d1 w)))) i
                \<and> state (cores (step d4 (step d3 (step d2 (step d1 w)))) ! i) = incubated
                \<and> warm_at (step d5 (step d4 (step d3 (step d2 (step d1 w))))) i)"
proof (rule conjI)
  show "state (cores (step d4 (step d3 (step d2 (step d1 w)))) ! i) \<noteq> bloomed
          \<and> state (cores (step d5 (step d4 (step d3 (step d2 (step d1 w))))) ! i) = bloomed
        \<longrightarrow> warm_at (step d1 w) i \<and> state (cores (step d1 w) ! i) = incubated
            \<and> warm_at (step d2 (step d1 w)) i
            \<and> state (cores (step d2 (step d1 w)) ! i) = incubated
            \<and> warm_at (step d3 (step d2 (step d1 w))) i
            \<and> state (cores (step d3 (step d2 (step d1 w))) ! i) = incubated
            \<and> warm_at (step d4 (step d3 (step d2 (step d1 w)))) i
            \<and> state (cores (step d4 (step d3 (step d2 (step d1 w)))) ! i) = incubated
            \<and> warm_at (step d5 (step d4 (step d3 (step d2 (step d1 w))))) i"
    using five_warm_steps [OF i] by blast
next
  have clock: "tick (step d w) = (if phase w = emit then tick w else tick w + 1)"
      "phase (step d w) = (if phase w = emit then collect else emit)"
    by (rule step_clock)+
  show "let c = cores w ! i; c' = cores (step d w) ! i; cm = core_at_read d w i;
            tk = tick (step d w);
            hot = (0.2 < cell (temperature (step d w)) (core_x cm) (core_y cm));
            fed = (0.2 < cell (fst (seen_by d w i)) (core_x cm) (core_y cm))
        in (state c = dormant \<longrightarrow>
                 (state c' = dormant \<or> state c' = incubated)
                 \<and> (state c' = incubated \<longleftrightarrow> fed)
                 \<and> (state c' = incubated \<longrightarrow> consecutiveHighTemp c' = (if hot then 1 else 0)))
            \<and> (state c = incubated \<longrightarrow>
                 (state c' = incubated \<or> state c' = bloomed)
                 \<and> (state c' = bloomed \<longleftrightarrow> hot \<and> 4 \<le> consecutiveHighTemp c)
                 \<and> consecutiveHighTemp c' = (if hot then consecutiveHighTemp c + 1 else 0)
                 \<and> (state c' = bloomed \<longrightarrow>
                       bloomTime c' = tk \<and> core_x c' = core_x cm \<and> core_y c' = core_y cm
                       \<and> \<lparr>en_x = core_x cm, en_y = core_y cm, createdAt = tk, active = True, coreId = core_id c\<rparr>
                           \<in> set (energies (step d w))))
            \<and> (state c = bloomed \<longrightarrow>
                 (state c' = bloomed \<or> state c' = dormant)
                 \<and> (state c' = dormant \<longleftrightarrow> 5 \<le> tk - bloomTime c))
            \<and> snd (seen_by d w (Suc i)) =
                 snd (seen_by d w i)
                   @ (if state c = incubated \<and> state c' = bloomed
                      then [\<lparr>en_x = core_x cm, en_y = core_y cm, createdAt = tk, active = True, coreId = core_id c\<rparr>]
                      else [])
            \<and> core_id c' = core_id c
            \<and> tk = (if phase w = emit then tick w else tick w + 1)
            \<and> phase (step d w) = (if phase w = emit then collect else emit)"
  proof (cases "state (cores w ! i)")
    case dormant
    show ?thesis
      unfolding Let_def step_core_dormant [OF i dormant]
      using clock by (simp add: dormant)
  next
    case incubated
    have kept: "state (cores (step d w) ! i) = bloomed \<longrightarrow>
            \<lparr>en_x = core_x (cores (step d w) ! i), en_y = core_y (cores (step d w) ! i), createdAt = tick (step d w), active = True,
              coreId = core_id (cores (step d w) ! i)\<rparr> \<in> set (energies (step d w))"
      using bloom_energy_kept [OF i incubated] by (simp add: new_energy_def)
    have rest: "(state (cores (step d w) ! i) = incubated \<or> state (cores (step d w) ! i) = bloomed)
        \<and> (state (cores (step d w) ! i) = bloomed \<longleftrightarrow> 0.2 < cell (temperature (step d w)) (core_x (core_at_read d w i)) (core_y (core_at_read d w i)) \<and> 4 \<le> consecutiveHighTemp (cores w ! i))
        \<and> consecutiveHighTemp (cores (step d w) ! i) = (if 0.2 < cell (temperature (step d w)) (core_x (core_at_read d w i)) (core_y (core_at_read d w i)) then consecutiveHighTemp (cores w ! i) + 1 else 0)
        \<and> (state (cores (step d w) ! i) = bloomed \<longrightarrow>
              bloomTime (cores (step d w) ! i) = tick (step d w) \<and> core_x (cores (step d w) ! i) = core_x (core_at_read d w i) \<and> core_y (cores (step d w) ! i) = core_y (core_at_read d w i))
        \<and> snd (seen_by d w (Suc i)) =
             snd (seen_by d w i)
               @ (if state (cores (step d w) ! i) = bloomed
                  then [\<lparr>en_x = core_x (core_at_read d w i), en_y = core_y (core_at_read d w i), createdAt = tick (step d w), active = True, coreId = core_id (cores w ! i)\<rparr>]
                  else [])
        \<and> core_id (cores (step d w) ! i) = core_id (cores w ! i)"
      unfolding step_core_incubated [OF i incubated]
      by (simp add: incubated new_energy_def)
    show ?thesis
      unfolding Let_def using kept rest incubated clock by auto
  next
    case bloomed
    show ?thesis
      unfolding Let_def step_core_bloomed [OF i bloomed]
      using clock by (simp add: bloomed)
  qed
qed

text \<open>
  The three transitions, each in a run: the dormant core of the one-cell world is fed in
  the first call and becomes incubated; the core of id 1 on the cell \<open>(1, 0)\<close> of the world
  of two by two cells blooms and leaves one energy manifestation on \<open>(1, 0)\<close> with the id 1;
  the bloomed core of the one-cell world, whose bloom tick is 2, is still bloomed after the
  thirteenth call at tick 6 and dormant after the fourteenth at tick 7.
\<close>

theorem core_state_machine_witness:
  "0 < length (cores seed_world) \<and> state (cores seed_world ! 0) = dormant
   \<and> state (cores (seed_run 1) ! 0) = incubated \<and> warm_at (seed_run 1) 0
   \<and> state (cores (seed_run 2) ! 0) = incubated \<and> warm_at (seed_run 2) 0
   \<and> state (cores (seed_run 3) ! 0) = incubated \<and> warm_at (seed_run 3) 0
   \<and> state (cores (seed_run 4) ! 0) = incubated \<and> warm_at (seed_run 4) 0
   \<and> state (cores (seed_run 5) ! 0) = bloomed \<and> warm_at (seed_run 5) 0
   \<and> 1 < length (cores ripe_world) \<and> state (cores ripe_world ! 1) = incubated
   \<and> state (cores (step calm_step_draws ripe_world) ! 1) = bloomed
   \<and> \<lparr>en_x = 1, en_y = 0, createdAt = 4, active = True, coreId = 1\<rparr>
        \<in> set (energies (step calm_step_draws ripe_world))
   \<and> snd (seen_by calm_step_draws ripe_world 2)
        = snd (seen_by calm_step_draws ripe_world 1)
            @ [\<lparr>en_x = 1, en_y = 0, createdAt = 4, active = True, coreId = 1\<rparr>]
   \<and> state (cores (seed_run 13) ! 0) = bloomed \<and> bloomTime (cores (seed_run 13) ! 0) = 2
   \<and> tick (seed_run 13) = 6 \<and> tick (seed_run 14) = 7
   \<and> state (cores (seed_run 14) ! 0) = dormant"
proof -
  have i: "0 < length (cores seed_world)" by (simp add: seed_world_def)
  have s0: "state (cores seed_world ! 0) = dormant" by (simp add: seed_world_def seed_core_def)
  have s4: "state (cores (seed_run 4) ! 0) = incubated" by (simp add: seed_run_4 seed_core_def)
  have s5: "state (cores (seed_run 5) ! 0) = bloomed" by (simp add: seed_run_5 seed_core_def)
  have trace: "warm_at (seed_run 1) 0 \<and> state (cores (seed_run 1) ! 0) = incubated
      \<and> warm_at (seed_run 2) 0 \<and> state (cores (seed_run 2) ! 0) = incubated
      \<and> warm_at (seed_run 3) 0 \<and> state (cores (seed_run 3) ! 0) = incubated
      \<and> warm_at (seed_run 4) 0 \<and> state (cores (seed_run 4) ! 0) = incubated
      \<and> warm_at (seed_run 5) 0"
    using core_state_machine [OF i, of calm_step_draws calm_step_draws calm_step_draws
        calm_step_draws calm_step_draws calm_step_draws] s4 s5
    unfolding seed_run_steps by simp
  have r: "1 < length (cores ripe_world)" by (simp add: ripe_world_def)
  have r0: "state (cores ripe_world ! 1) = incubated"
    "consecutiveHighTemp (cores ripe_world ! 1) = 4" "core_id (cores ripe_world ! 1) = 1"
    by (simp_all add: ripe_world_def ripe_core_def)
  have cm: "core_at_read calm_step_draws ripe_world 1 = ripe_core"
    by (simp add: core_at_read_def delayed_move_def ripe_world_def ripe_core_def)
  have at: "core_x ripe_core = 1" "core_y ripe_core = 0" by (simp_all add: ripe_core_def)
  have hot: "0.2 < cell (temperature (step calm_step_draws ripe_world)) 1 0"
    by (simp add: ripe_step cell_def)
  have tk: "tick (step calm_step_draws ripe_world) = 4" by (simp add: ripe_step)
  note one = core_state_machine [OF r, of calm_step_draws, THEN conjunct1,
      unfolded Let_def cm at r0 tk]
  from one hot have bl: "state (cores (step calm_step_draws ripe_world) ! 1) = bloomed"
    by simp
  with one have en: "\<lparr>en_x = 1, en_y = 0, createdAt = 4, active = True, coreId = 1\<rparr>
                       \<in> set (energies (step calm_step_draws ripe_world))"
    by simp
  from one bl have app: "snd (seen_by calm_step_draws ripe_world 2)
        = snd (seen_by calm_step_draws ripe_world 1)
            @ [\<lparr>en_x = 1, en_y = 0, createdAt = 4, active = True, coreId = 1\<rparr>]"
    by (simp add: numeral_2_eq_2)
  have i13: "0 < length (cores (seed_run 13))" by (simp add: seed_run_13)
  have b13: "state (cores (seed_run 13) ! 0) = bloomed" "bloomTime (cores (seed_run 13) ! 0) = 2"
    "tick (seed_run 13) = 6"
    by (simp_all add: seed_run_13)
  have t14: "tick (seed_run 14) = 7" by (simp add: seed_run_14)
  have "state (cores (seed_run 14) ! 0) = dormant"
    using core_state_machine [OF i13, of calm_step_draws, THEN conjunct1] b13 t14
    unfolding seed_run_steps Let_def by simp
  with i s0 s5 trace r r0(1) bl en app b13 t14 show ?thesis by simp
qed

section \<open>The numbers of a network\<close>

lemma overflow_at_large: "10 ^ 308 < overflow_at" "overflow_at < 2 * 10 ^ 308"
  by (simp_all add: overflow_at_def)

lemma overflow_at_pos: "1000000 < overflow_at"
  using overflow_at_large(1) by (rule less_trans [rotated]) simp

lemma fin_small: "\<bar>r\<bar> < overflow_at \<Longrightarrow> fin r = Fin r"
  by (auto simp: fin_def)

lemma fin_0 [simp]: "fin 0 = Fin 0"
  using overflow_at_pos by (simp add: fin_small)

lemma fin_unit: "0 \<le> r \<Longrightarrow> r \<le> 1 \<Longrightarrow> fin r = Fin r"
  using overflow_at_pos by (simp add: fin_small)

lemma fin_nonpos: "r \<le> 0 \<Longrightarrow> fin r = (if r \<le> - overflow_at then NegInf else Fin r)"
  using overflow_at_pos by (simp add: fin_def)

section \<open>Serialisation\<close>

lemma copy_layer_id [simp]: "copy_layer l = l"
  by (simp add: copy_layer_def)

lemma replace_fold:
  "foldl (replace_layer dat) ls [0..<n] =
     map (\<lambda>i. if i < n then dat ! i else ls ! i) [0..<length ls]"
proof (induction n)
  case 0
  show ?case by (simp add: map_nth)
next
  case (Suc n)
  have "foldl (replace_layer dat) ls [0..<Suc n] =
          replace_layer dat (map (\<lambda>i. if i < n then dat ! i else ls ! i) [0..<length ls]) n"
    using Suc by simp
  also have "\<dots> = map (\<lambda>i. if i < Suc n then dat ! i else ls ! i) [0..<length ls]"
  proof (rule nth_equalityI)
    show "length (replace_layer dat (map (\<lambda>i. if i < n then dat ! i else ls ! i) [0..<length ls]) n)
            = length (map (\<lambda>i. if i < Suc n then dat ! i else ls ! i) [0..<length ls])"
      by (simp add: replace_layer_def)
  next
    fix j
    assume "j < length (replace_layer dat (map (\<lambda>i. if i < n then dat ! i else ls ! i)
                          [0..<length ls]) n)"
    then have j: "j < length ls" by (simp add: replace_layer_def split: if_splits)
    then show "replace_layer dat (map (\<lambda>i. if i < n then dat ! i else ls ! i) [0..<length ls]) n ! j
                 = map (\<lambda>i. if i < Suc n then dat ! i else ls ! i) [0..<length ls] ! j"
      by (simp add: replace_layer_def nth_list_update less_Suc_eq)
  qed
  finally show ?case .
qed

lemma NeuralNetwork_length:
  "length (layers (NeuralNetwork g inputSize hiddenSizes outputSize)) = Suc (length hiddenSizes)"
proof -
  have "length (layers (NeuralNetwork g inputSize hiddenSizes outputSize)) =
          length [1..<length (inputSize # hiddenSizes @ [outputSize])]"
    by (simp only: NeuralNetwork_def Let_def network.simps length_map)
  also have "\<dots> = length (inputSize # hiddenSizes @ [outputSize]) - 1"
    by (simp only: length_upt)
  also have "\<dots> = Suc (length hiddenSizes)"
    by simp
  finally show ?thesis .
qed

lemma network_update_layers: "(net::network)\<lparr>layers := ls\<rparr> = \<lparr>layers = ls\<rparr>"
  by (cases net) simp

text \<open>What \<^verbatim>\<open>deserialize\<close> returns, case by case.\<close>

lemma deserialize_cases:
  "deserialize g dat =
     (case ser_layers dat of
        None \<Rightarrow> Inl InvalidData
      | Some ls \<Rightarrow>
          (case ser_architecture dat of
             None \<Rightarrow> Inl InvalidData
           | Some a \<Rightarrow>
               if arch_structure a = [] then Inl TypeError
               else Inr \<lparr>layers =
                          map (\<lambda>i. if i < length ls then ls ! i
                                    else layers (NeuralNetwork g (inputs (arch_structure a ! 0))
                                                   (map neurons (butlast (arch_structure a)))
                                                   (neurons (last (arch_structure a)))) ! i)
                            [0..<length (arch_structure a)]\<rparr>))"
proof (cases "ser_layers dat")
  case None
  then show ?thesis by (simp add: deserialize_def)
next
  case (Some ls)
  note ls = this
  show ?thesis
  proof (cases "ser_architecture dat")
    case None
    then show ?thesis by (simp add: deserialize_def ls)
  next
    case (Some a)
    show ?thesis
    proof (cases "arch_structure a = []")
      case True
      then show ?thesis by (simp add: deserialize_def ls Some)
    next
      case False
      then have "Suc (length (map neurons (butlast (arch_structure a)))) = length (arch_structure a)"
        by simp
      then have len: "length (layers (NeuralNetwork g (inputs (arch_structure a ! 0))
                                       (map neurons (butlast (arch_structure a)))
                                       (neurons (last (arch_structure a)))))
                      = length (arch_structure a)"
        by (simp only: NeuralNetwork_length)
      have "deserialize g dat =
              Inr ((NeuralNetwork g (inputs (arch_structure a ! 0))
                      (map neurons (butlast (arch_structure a)))
                      (neurons (last (arch_structure a))))
                   \<lparr>layers :=
                      foldl (replace_layer ls)
                        (layers (NeuralNetwork g (inputs (arch_structure a ! 0))
                                   (map neurons (butlast (arch_structure a)))
                                   (neurons (last (arch_structure a)))))
                        [0..<length ls]\<rparr>)"
        using False by (simp add: deserialize_def ls Some Let_def del: upt_Suc)
      then show ?thesis
        using False
        by (simp only: replace_fold network_update_layers len ls Some option.case if_False
              copy_layer_id)
    qed
  qed
qed

lemma architecture_loop_ok:
  assumes "\<forall>l\<in>set ls. weights l \<noteq> []"
  shows "\<exists>b. architecture_loop ls a = Inr b \<and> length (arch_structure b) = length (arch_structure a) + length ls"
  using assms
proof (induction ls arbitrary: a)
  case Nil
  then show ?case by simp
next
  case (Cons l ls)
  then have l: "weights l \<noteq> []" and rest: "\<forall>m\<in>set ls. weights m \<noteq> []" by simp_all
  obtain li where li: "layer_info l = Inr li" using l by (simp add: layer_info_def)
  from Cons.IH [OF rest, of "a\<lparr>totalParameters := totalParameters a + parameters li,
                               arch_structure := arch_structure a @ [li]\<rparr>"]
  show ?case by (auto simp: li)
qed

lemma getArchitecture_ok:
  assumes "\<forall>l\<in>set (layers p). weights l \<noteq> []"
  shows "\<exists>a. getArchitecture p = Inr a \<and> length (arch_structure a) = length (layers p)"
  using architecture_loop_ok [OF assms,
      of "\<lparr>arch_layers = length (layers p), arch_structure = [], totalParameters = 0\<rparr>"]
  by (simp add: getArchitecture_def)

text \<open>
  Claim C5. For a policy with at least one layer, each layer with at least one neuron
  (which is every policy the constructor builds from positive sizes, and every mutation or
  copy of one), \<^verbatim>\<open>serialize\<close> returns data, and \<^verbatim>\<open>deserialize\<close> of that data returns a
  policy with the same layers: the same shapes and the same weights and biases, whatever the
  random initial values of the rebuilt network were.
\<close>

theorem deserialize_serialize:
  assumes "layers p \<noteq> []" "\<forall>l\<in>set (layers p). weights l \<noteq> []"
  shows "\<exists>dat. serialize now p = Inr dat \<and> deserialize g dat = Inr p
           \<and> layers p = the (ser_layers dat)"
proof -
  obtain a where a: "getArchitecture p = Inr a" "length (arch_structure a) = length (layers p)"
    using getArchitecture_ok [OF assms(2)] by blast
  let ?dat = "\<lparr>ser_layers = Some (map (\<lambda>l. \<lparr>weights = weights l, biases = biases l\<rparr>) (layers p)),
               ser_architecture = Some a, version = ''1.0'', serializedAt = now\<rparr>"
  have same: "map (\<lambda>l. \<lparr>weights = weights l, biases = biases l\<rparr>) (layers p) = layers p"
    by (simp add: map_idI)
  have ser: "serialize now p = Inr ?dat"
    by (simp add: serialize_def a)
  have ne: "arch_structure a \<noteq> []" using a(2) assms(1) by auto
  have all: "map (\<lambda>i. if i < length xs then xs ! i else f i) [0..<length xs] = xs"
    for xs :: "layer list" and f
    by (rule nth_equalityI) simp_all
  have "deserialize g ?dat = Inr \<lparr>layers = layers p\<rparr>"
    unfolding deserialize_cases using ne a(2)
    by (simp add: same all)
  then have "deserialize g ?dat = Inr p" by simp
  with ser same show ?thesis by simp
qed

theorem deserialize_serialize_witness:
  "layers \<lparr>layers = [wide_layer, extra_layer]\<rparr> \<noteq> []
   \<and> list_all (\<lambda>l. weights l \<noteq> []) (layers \<lparr>layers = [wide_layer, extra_layer]\<rparr>)
   \<and> (\<exists>dat. serialize 1700000000 \<lparr>layers = [wide_layer, extra_layer]\<rparr> = Inr dat
          \<and> deserialize zero_init dat = Inr \<lparr>layers = [wide_layer, extra_layer]\<rparr>
          \<and> layers \<lparr>layers = [wide_layer, extra_layer]\<rparr> = the (ser_layers dat))"
proof -
  let ?p = "\<lparr>layers = [wide_layer, extra_layer]\<rparr>"
  have a: "layers ?p \<noteq> []" by simp
  have b: "\<forall>l\<in>set (layers ?p). weights l \<noteq> []"
    by (simp add: wide_layer_def extra_layer_def)
  from deserialize_serialize [OF a b, of 1700000000 zero_init] a b show ?thesis
    by (simp add: list_all_iff)
qed

text \<open>
  Claim C4, as the code has it. \<^verbatim>\<open>deserialize\<close> validates no shape. Its only test is the
  presence of the two properties \<^verbatim>\<open>layers\<close> and \<^verbatim>\<open>architecture\<close>: it raises
  \<^verbatim>\<open>Invalid serialized network data\<close> exactly when one of them is missing, and with both and
  an empty declared structure it raises a \<^verbatim>\<open>TypeError\<close>. With both, and a declared
  structure that is not empty and whose sizes are lengths that \<^verbatim>\<open>Array\<close> accepts (below
  \<open>2^32\<close>), it raises nothing and returns a network with as many layers as the structure
  declares: layer \<open>i\<close> is the serialised layer \<open>i\<close> as it is, whatever its shape, when the
  data has one, and the randomly initialised layer of the declared sizes otherwise.
  Serialised layers beyond the declared number are dropped.

  The statement is about data of the types of this theory: the serialised layers are
  pairs of arrays and the architecture has a structure. For a declared size of \<open>2^32\<close> or
  more the constructor of the source raises a \<^verbatim>\<open>RangeError\<close>, which is why such sizes are
  excluded.
\<close>

theorem deserialize_result:
  "(deserialize g dat = Inl InvalidData
      \<longleftrightarrow> ser_layers dat = None \<or> ser_architecture dat = None)
   \<and> (\<forall>ls a. ser_layers dat = Some ls \<and> ser_architecture dat = Some a \<and> arch_structure a = []
        \<longrightarrow> deserialize g dat = Inl TypeError)
   \<and> (\<forall>ls a. ser_layers dat = Some ls \<and> ser_architecture dat = Some a
              \<and> arch_structure a \<noteq> []
              \<and> list_all (\<lambda>li. neurons li < 2 ^ 32 \<and> inputs li < 2 ^ 32) (arch_structure a)
        \<longrightarrow> (\<exists>net. deserialize g dat = Inr net
                \<and> length (layers net) = length (arch_structure a)
                \<and> (\<forall>i<length (arch_structure a).
                      layers net ! i =
                        (if i < length ls then ls ! i
                         else layers (NeuralNetwork g (inputs (arch_structure a ! 0))
                                        (map neurons (butlast (arch_structure a)))
                                        (neurons (last (arch_structure a)))) ! i))))"
  unfolding deserialize_cases
  by (cases "ser_layers dat"; cases "ser_architecture dat") auto

lemma NeuralNetwork_small:
  "NeuralNetwork zero_init 2 [1] 1 =
     \<lparr>layers = [\<lparr>weights = [[Fin 0, Fin 0]], biases = [Fin 0]\<rparr>,
                \<lparr>weights = [[Fin 0]], biases = [Fin 0]\<rparr>]\<rparr>"
  unfolding NeuralNetwork_def randomMatrix_def randomArray_def zero_init_def Let_def
  by (simp add: upt_rec)

text \<open>
  The data \<open>mismatched\<close> declares one layer of one neuron with one input and carries two
  layers, the first of two neurons with three inputs: no error is raised, the first layer
  is taken as it is and the second is dropped.
\<close>

theorem deserialize_validates_counterexample:
  "deserialize zero_init mismatched = Inr \<lparr>layers = [wide_layer]\<rparr>
   \<and> ser_layers mismatched = Some [wide_layer, extra_layer]
   \<and> map (\<lambda>li. (neurons li, inputs li)) (arch_structure (the (ser_architecture mismatched)))
       = [(1, 1)]
   \<and> length (weights wide_layer) = 2 \<and> length (weights wide_layer ! 0) = 3"
  by (simp add: deserialize_cases mismatched_def wide_layer_def)

text \<open>
  The data \<open>short_data\<close> declares two layers and carries one: the missing layer is the
  random one of the new network.
\<close>

theorem deserialize_result_witness:
  "ser_layers short_data = Some [extra_layer]
   \<and> arch_structure (the (ser_architecture short_data)) \<noteq> []
   \<and> list_all (\<lambda>li. neurons li < 2 ^ 32 \<and> inputs li < 2 ^ 32)
        (arch_structure (the (ser_architecture short_data)))
   \<and> (\<exists>net. deserialize zero_init short_data = Inr net
          \<and> length (layers net) = 2
          \<and> layers net ! 0 = extra_layer
          \<and> layers net ! 1 = \<lparr>weights = [[Fin 0]], biases = [Fin 0]\<rparr>)"
proof -
  let ?a = "the (ser_architecture short_data)"
  have l: "ser_layers short_data = Some [extra_layer]"
    and a: "ser_architecture short_data = Some ?a"
    and s: "arch_structure ?a \<noteq> []"
    and z: "list_all (\<lambda>li. neurons li < 2 ^ 32 \<and> inputs li < 2 ^ 32) (arch_structure ?a)"
    by (simp_all add: short_data_def)
  have fresh: "NeuralNetwork zero_init (inputs (arch_structure ?a ! 0))
                 (map neurons (butlast (arch_structure ?a))) (neurons (last (arch_structure ?a)))
               = NeuralNetwork zero_init 2 [1] 1"
    by (simp add: short_data_def)
  have two: "length (arch_structure ?a) = 2" by (simp add: short_data_def)
  have "\<exists>net. deserialize zero_init short_data = Inr net
          \<and> length (layers net) = 2
          \<and> layers net ! 0 = extra_layer
          \<and> layers net ! 1 = \<lparr>weights = [[Fin 0]], biases = [Fin 0]\<rparr>"
    using deserialize_result [of zero_init short_data]
  proof (elim conjE, goal_cases)
    case 1
    have pre: "ser_layers short_data = Some [extra_layer] \<and> ser_architecture short_data = Some ?a
                \<and> arch_structure ?a \<noteq> []
                \<and> list_all (\<lambda>li. neurons li < 2 ^ 32 \<and> inputs li < 2 ^ 32) (arch_structure ?a)"
      using l a s z by (intro conjI)
    from 1(3) [rule_format, OF pre] show ?case
    proof (elim exE conjE, goal_cases)
      case (1 net)
      have n0: "layers net ! 0 = extra_layer"
        using 1(3) [rule_format, of 0] two by simp
      have n1: "layers net ! 1 = \<lparr>weights = [[Fin 0]], biases = [Fin 0]\<rparr>"
        using 1(3) [rule_format, of 1] two unfolding fresh NeuralNetwork_small by simp
      from 1(1,2) two n0 n1 show ?case by simp
    qed
  qed
  with l s z show ?thesis by (intro conjI)
qed

section \<open>The forward pass\<close>

lemma layer_out_length [simp]: "length (layer_out b l a) = length (weights l)"
  by (simp add: layer_out_def)

lemma forward_layers_length:
  assumes "ls \<noteq> []"
  shows "length (forward_layers ls a) = length (weights (last ls))"
  using assms
  by (induction ls a rule: forward_layers.induct) simp_all

lemma softmax_length [simp]: "length (softmax a) = length a"
  by (simp add: softmax_def Let_def)

lemma net_ok_last:
  assumes "net_ok sizes ls" "2 \<le> length sizes"
  shows "ls \<noteq> [] \<and> length (weights (last ls)) = last sizes"
  using assms
proof (induction sizes ls rule: net_ok.induct)
  case (1 n m ns l ls)
  then have l: "layer_ok n m l" and rest: "net_ok (m # ns) ls" by simp_all
  show ?case
  proof (cases ls)
    case Nil
    with rest have "ns = []" by (cases ns) simp_all
    with Nil l show ?thesis by (simp add: layer_ok_def)
  next
    case (Cons k ks)
    with rest have "ns \<noteq> []" by (cases ns) simp_all
    then have "2 \<le> length (m # ns)" by (cases ns) simp_all
    with "1.IH" rest have "ls \<noteq> [] \<and> length (weights (last ls)) = last (m # ns)" by simp
    with Cons show ?thesis by simp
  qed
qed simp_all

text \<open>Sums and maxima with \<^verbatim>\<open>NaN\<close> and \<^verbatim>\<open>Infinity\<close>.\<close>

lemma nadd_NaN [simp]: "nadd a NaN = NaN" "nadd NaN a = NaN"
  by (cases a; simp)+

lemma nmax_NaN [simp]: "nmax a NaN = NaN" "nmax NaN a = NaN"
  by (cases a; simp)+

lemma ndiv_NaN [simp]: "ndiv a NaN = NaN" "ndiv NaN a = NaN"
  by (cases a; simp)+

lemma nsub_NaN [simp]: "nsub a NaN = NaN"
  by (simp add: nsub_def)

lemma foldl_nadd_NaN: "NaN \<in> set xs \<Longrightarrow> foldl nadd s xs = NaN"
proof (induction xs arbitrary: s)
  case Nil
  then show ?case by simp
next
  case (Cons x xs)
  have start: "foldl nadd NaN ys = NaN" for ys by (induction ys) simp_all
  from Cons show ?case by (auto simp: start)
qed

lemma foldl_nmax_NaN: "NaN \<in> set xs \<Longrightarrow> foldl nmax s xs = NaN"
proof (induction xs arbitrary: s)
  case Nil
  then show ?case by simp
next
  case (Cons x xs)
  have start: "foldl nmax NaN ys = NaN" for ys by (induction ys) simp_all
  from Cons show ?case by (auto simp: start)
qed

lemma nmax_PosInf: "a \<noteq> NaN \<Longrightarrow> nmax a PosInf = PosInf" "a \<noteq> NaN \<Longrightarrow> nmax PosInf a = PosInf"
  by (cases a; simp)+

lemma foldl_nmax_PosInf:
  assumes "NaN \<notin> set xs" "s = PosInf \<or> (s \<noteq> NaN \<and> PosInf \<in> set xs)"
  shows "foldl nmax s xs = PosInf"
  using assms
proof (induction xs arbitrary: s)
  case Nil
  then show ?case by simp
next
  case (Cons x xs)
  then have x: "x \<noteq> NaN" and rest: "NaN \<notin> set xs" by auto
  show ?case
  proof (cases "s = PosInf \<or> x = PosInf")
    case True
    then have "nmax s x = PosInf" using x Cons.prems(2) by (auto simp: nmax_PosInf)
    then show ?thesis using Cons.IH [OF rest, of PosInf] by simp
  next
    case False
    with Cons.prems(2) have s: "s \<noteq> NaN" and mem: "PosInf \<in> set xs" by auto
    from s x have "nmax s x \<noteq> NaN" by (cases s; cases x; simp)
    with Cons.IH [OF rest, of "nmax s x"] mem show ?thesis by simp
  qed
qed

text \<open>
  When a logit is \<^verbatim>\<open>NaN\<close> or \<^verbatim>\<open>Infinity\<close>, the softmax is \<^verbatim>\<open>NaN\<close> everywhere: the maximum
  is that logit, and its difference with itself is \<^verbatim>\<open>NaN\<close>.
\<close>

lemma softmax_not_finite:
  assumes "NaN \<in> set arr \<or> PosInf \<in> set arr"
  shows "softmax arr = replicate (length arr) NaN"
proof -
  let ?mx = "math_max arr"
  let ?exps = "map (\<lambda>x. nexp (nsub x ?mx)) arr"
  have "NaN \<in> set ?exps"
  proof (cases "NaN \<in> set arr")
    case True
    then have "?mx = NaN" by (simp add: math_max_def foldl_nmax_NaN)
    moreover from True have "arr \<noteq> []" by auto
    ultimately show ?thesis by (cases arr) simp_all
  next
    case False
    with assms have inf: "PosInf \<in> set arr" by simp
    with False have "?mx = PosInf" by (simp add: math_max_def foldl_nmax_PosInf)
    then have "nexp (nsub PosInf ?mx) = NaN" by (simp add: nsub_def)
    then have "NaN = (\<lambda>x. nexp (nsub x ?mx)) PosInf" by simp
    with inf have "NaN \<in> (\<lambda>x. nexp (nsub x ?mx)) ` set arr" by (rule image_eqI [rotated])
    then show ?thesis by simp
  qed
  then have "foldl nadd (Fin 0) ?exps = NaN" by (rule foldl_nadd_NaN)
  then have "softmax arr = map (\<lambda>x. NaN) ?exps"
    by (simp add: softmax_def Let_def)
  then show ?thesis by (simp add: map_replicate_const)
qed

text \<open>The softmax of finite logits.\<close>

lemma math_max_Fin:
  assumes "zs \<noteq> []"
  shows "math_max (map Fin zs) = Fin (Max (set zs))"
proof -
  obtain z ys where zs: "zs = z # ys" using assms by (cases zs) auto
  have "foldl nmax (Fin m) (map Fin ys) = Fin (fold max ys m)" for m
    by (induction ys arbitrary: m) (simp_all add: max.commute)
  moreover have "Max (set (z # ys)) = fold max ys z" by (rule Max.set_eq_fold)
  ultimately show ?thesis
    unfolding zs math_max_def by simp
qed

lemma shifted_exp:
  assumes "z \<le> M"
  shows "nexp (nsub (Fin z) (Fin M)) = Fin (if z - M \<le> - overflow_at then 0 else exp (z - M))"
proof -
  have d: "z - M \<le> 0" using assms by simp
  have "nsub (Fin z) (Fin M) = fin (z - M)" by (simp add: nsub_def)
  also have "\<dots> = (if z - M \<le> - overflow_at then NegInf else Fin (z - M))"
    using d by (rule fin_nonpos)
  finally have s: "nsub (Fin z) (Fin M) = (if z - M \<le> - overflow_at then NegInf else Fin (z - M))" .
  have "fin (exp (z - M)) = Fin (exp (z - M))"
    using d by (intro fin_unit) simp_all
  with s show ?thesis by simp
qed

lemma foldl_nadd_Fin:
  assumes "\<forall>e\<in>set es. 0 \<le> e \<and> e \<le> 1" "0 \<le> s" "s + real (length es) < overflow_at"
  shows "foldl nadd (Fin s) (map Fin es) = Fin (s + sum_list es)"
  using assms
proof (induction es arbitrary: s)
  case Nil
  then show ?case by simp
next
  case (Cons e es)
  then have e: "0 \<le> e" "e \<le> 1" by simp_all
  with Cons.prems have "\<bar>s + e\<bar> < overflow_at" by simp
  then have "nadd (Fin s) (Fin e) = Fin (s + e)" by (simp add: fin_small)
  moreover have "foldl nadd (Fin (s + e)) (map Fin es) = Fin (s + e + sum_list es)"
    using Cons.prems e by (intro Cons.IH) simp_all
  ultimately show ?case by (simp add: add.assoc)
qed

lemma member_le_sum:
  fixes es :: "real list"
  assumes "\<forall>e\<in>set es. 0 \<le> e" "x \<in> set es"
  shows "x \<le> sum_list es"
  using assms
proof (induction es)
  case Nil
  then show ?case by simp
next
  case (Cons e es)
  then have "0 \<le> e" "0 \<le> sum_list es" by (simp_all add: sum_list_nonneg)
  with Cons show ?case by auto
qed

lemma softmax_Fin:
  assumes "zs \<noteq> []" "real (length zs) < overflow_at"
  defines "es \<equiv> map (\<lambda>z. if z - Max (set zs) \<le> - overflow_at then 0 else exp (z - Max (set zs))) zs"
  shows "softmax (map Fin zs) = map (\<lambda>e. Fin (e / sum_list es)) es"
    and "1 \<le> sum_list es"
    and "\<forall>e\<in>set es. 0 \<le> e \<and> e \<le> 1"
proof -
  let ?M = "Max (set zs)"
  have le: "z \<le> ?M" if "z \<in> set zs" for z using that by simp
  show unit: "\<forall>e\<in>set es. 0 \<le> e \<and> e \<le> 1"
    using le by (auto simp: es_def)
  have "?M \<in> set zs" using assms(1) by (intro Max_in) simp_all
  moreover have "\<not> (0::real) \<le> - overflow_at" using overflow_at_pos by simp
  ultimately have "1 \<in> set es"
    by (force simp: es_def image_iff)
  moreover have "\<forall>e\<in>set es. 0 \<le> e" using unit by simp
  ultimately show one: "1 \<le> sum_list es" by (intro member_le_sum)
  have exps: "map (\<lambda>x. nexp (nsub x (Fin ?M))) (map Fin zs) = map Fin es"
    using le by (simp add: es_def shifted_exp)
  have "0 + real (length es) < overflow_at" using assms(2) by (simp add: es_def)
  with unit have total: "foldl nadd (Fin 0) (map Fin es) = Fin (0 + sum_list es)"
    by (intro foldl_nadd_Fin) simp_all
  have "ndiv (Fin e) (Fin (sum_list es)) = Fin (e / sum_list es)" if "e \<in> set es" for e
  proof -
    from that unit have e: "0 \<le> e" "e \<le> 1" by simp_all
    have "e \<le> sum_list es" using e one by simp
    then have "e / sum_list es \<le> 1" using one by simp
    moreover have "0 \<le> e / sum_list es" using e one by simp
    ultimately have "fin (e / sum_list es) = Fin (e / sum_list es)" by (intro fin_unit)
    then show ?thesis using one by simp
  qed
  then have "map (\<lambda>x. ndiv x (Fin (sum_list es))) (map Fin es) = map (\<lambda>e. Fin (e / sum_list es)) es"
    by simp
  then show "softmax (map Fin zs) = map (\<lambda>e. Fin (e / sum_list es)) es"
    using assms(1) total
    by (simp add: softmax_def math_max_Fin Let_def exps del: map_map)
qed

lemma sum_list_normalised:
  fixes es :: "real list"
  assumes "sum_list es \<noteq> 0"
  shows "sum_list (map (\<lambda>e. e / sum_list es) es) = 1"
proof -
  have "sum_list (map (\<lambda>e. e * inverse (sum_list es)) es) = sum_list es * inverse (sum_list es)"
    by (simp add: sum_list_mult_const)
  then show ?thesis using assms by (simp add: divide_inverse)
qed

text \<open>
  Bounded parameters and bounded inputs give bounded sums: a neuron of \<open>n\<close> inputs of
  magnitude at most \<open>X\<close>, with parameters of magnitude at most \<open>B\<close>, has a sum of
  magnitude at most \<open>B + n * (B * X)\<close>, as long as this bound does not overflow.
\<close>

lemma bound_Fin: "within_bound B v \<longleftrightarrow> (\<exists>x. v = Fin x \<and> \<bar>x\<bar> \<le> B)"
  by (cases v) (simp_all add: within_bound_def)

lemma bound_mono: "within_bound B v \<Longrightarrow> B \<le> C \<Longrightarrow> within_bound C v"
  by (auto simp: bound_Fin)

lemma finite_as_map:
  assumes "\<forall>v\<in>set xs. is_Fin v"
  shows "\<exists>zs. xs = map Fin zs"
  using assms
proof (induction xs)
  case Nil
  then show ?case by simp
next
  case (Cons v xs)
  then obtain zs where "xs = map Fin zs" by auto
  moreover from Cons.prems obtain z where "v = Fin z" by (auto simp: is_Fin_def)
  ultimately have "v # xs = map Fin (z # zs)" by simp
  then show ?case by (rule exI)
qed

lemma bound_nth: "list_all (within_bound B) xs \<Longrightarrow> k < length xs \<Longrightarrow> within_bound B (xs ! k)"
  by (simp add: list_all_length)

lemma neuron_sum_bound:
  assumes l: "layer_ok n m l" "layer_within B l" and a: "length a = n" "list_all (within_bound X) a"
    and j: "j < m" and pos: "0 \<le> B" "0 \<le> X" and small: "B + real n * (B * X) < overflow_at"
  shows "within_bound (B + real n * (B * X)) (neuron_sum l a j)"
proof -
  let ?f = "\<lambda>s k. nadd s (nmul (rd (weights l ! j) k) (a ! k))"
  have jw: "j < length (weights l)" and jb: "j < length (biases l)"
    using l(1) j by (simp_all add: layer_ok_def)
  have row: "length (weights l ! j) = n"
    using l(1) jw by (simp add: layer_ok_def list_all_length)
  have roww: "list_all (within_bound B) (weights l ! j)"
    using l(2) jw by (simp add: layer_within_def list_all_length)
  have bias: "within_bound B (rd (biases l) j)"
    using l(2) jb by (simp add: layer_within_def list_all_length rd_def)
  have bx: "0 \<le> B * X" using pos by simp
  have part: "within_bound (B + real k * (B * X)) (foldl ?f (rd (biases l) j) [0..<k])" if "k \<le> n" for k
    using that
  proof (induction k)
    case 0
    then show ?case using bias by simp
  next
    case (Suc k)
    then have k: "k < n" by simp
    from Suc obtain s where s: "foldl ?f (rd (biases l) j) [0..<k] = Fin s"
        "\<bar>s\<bar> \<le> B + real k * (B * X)"
      by (auto simp: bound_Fin)
    obtain w where w: "weights l ! j ! k = Fin w" "\<bar>w\<bar> \<le> B"
      using bound_nth [OF roww, of k] k row by (auto simp: bound_Fin)
    obtain v where v: "a ! k = Fin v" "\<bar>v\<bar> \<le> X"
      using bound_nth [OF a(2), of k] k a(1) by (auto simp: bound_Fin)
    have wv: "\<bar>w * v\<bar> \<le> B * X"
      unfolding abs_mult using w(2) v(2) by (intro mult_mono) simp_all
    have "real (Suc k) * (B * X) \<le> real n * (B * X)"
      using k bx by (intro mult_right_mono) simp_all
    then have top: "B + real (Suc k) * (B * X) < overflow_at"
      using small by simp
    have "B * X \<le> real (Suc k) * (B * X)"
      using bx by (simp add: distrib_right)
    with wv top pos(1) have "\<bar>w * v\<bar> < overflow_at" by simp
    then have prod: "nmul (rd (weights l ! j) k) (a ! k) = Fin (w * v)"
      using k row w(1) v(1) by (simp add: rd_def fin_small)
    have sum: "\<bar>s + w * v\<bar> \<le> B + real (Suc k) * (B * X)"
      using s(2) wv by (simp add: distrib_right)
    with top have "nadd (Fin s) (Fin (w * v)) = Fin (s + w * v)"
      by (simp add: fin_small)
    with s(1) prod sum show ?case by (simp add: bound_Fin)
  qed
  from part [of n] a(1) show ?thesis by (simp add: neuron_sum_def)
qed

lemma layer_out_bound:
  assumes "layer_ok n m l" "layer_within B l" "length a = n" "list_all (within_bound X) a"
    "0 \<le> B" "0 \<le> X" "B + real n * (B * X) < overflow_at"
  shows "length (layer_out b l a) = m \<and> list_all (within_bound (B + real n * (B * X))) (layer_out b l a)"
proof -
  have m: "length (weights l) = m" using assms(1) by (simp add: layer_ok_def)
  have "within_bound (B + real n * (B * X)) (neuron_sum l a j)
        \<and> within_bound (B + real n * (B * X)) (relu (neuron_sum l a j))" if "j < m" for j
  proof -
    have s: "within_bound (B + real n * (B * X)) (neuron_sum l a j)"
      using assms(1-4) that assms(5-7) by (rule neuron_sum_bound)
    then obtain x where "neuron_sum l a j = Fin x" "\<bar>x\<bar> \<le> B + real n * (B * X)"
      by (auto simp: bound_Fin)
    then have "within_bound (B + real n * (B * X)) (relu (neuron_sum l a j))"
      by (auto simp: relu_def bound_Fin)
    with s show ?thesis by simp
  qed
  then show ?thesis
    by (simp add: layer_out_def m list_all_length)
qed

lemma net_ok_four:
  assumes "net_ok [n0, n1, n2, n3, n4] ls"
  obtains l1 l2 l3 l4 where "ls = [l1, l2, l3, l4]" "layer_ok n0 n1 l1" "layer_ok n1 n2 l2"
    "layer_ok n2 n3 l3" "layer_ok n3 n4 l4"
proof -
  from assms obtain l1 r1 where r1: "ls = l1 # r1" by (cases ls) simp_all
  with assms have a1: "layer_ok n0 n1 l1" "net_ok [n1, n2, n3, n4] r1" by simp_all
  from a1(2) obtain l2 r2 where r2: "r1 = l2 # r2" by (cases r1) simp_all
  with a1(2) have a2: "layer_ok n1 n2 l2" "net_ok [n2, n3, n4] r2" by simp_all
  from a2(2) obtain l3 r3 where r3: "r2 = l3 # r3" by (cases r2) simp_all
  with a2(2) have a3: "layer_ok n2 n3 l3" "net_ok [n3, n4] r3" by simp_all
  from a3(2) obtain l4 r4 where r4: "r3 = l4 # r4" by (cases r3) simp_all
  with a3(2) have a4: "layer_ok n3 n4 l4" "net_ok [n4] r4" by simp_all
  from a4(2) have "r4 = []" by (cases r4) simp_all
  with r1 r2 r3 r4 have "ls = [l1, l2, l3, l4]" by simp
  with a1(1) a2(1) a3(1) a4(1) that show ?thesis by blast
qed

text \<open>
  For the standard sizes, parameters within 1000 and inputs within \<open>10^10\<close> give finite
  logits: no sum of the forward pass overflows.
\<close>

lemma logits_finite:
  assumes net: "net_ok [542, 256, 128, 64, 5] (layers net)"
    and par: "list_all (layer_within 1000) (layers net)"
    and inp: "length input = 542" "list_all (within_bound (10 ^ 10)) input"
  shows "\<exists>zs. forward_layers (layers net) input = map Fin zs \<and> length zs = 5"
proof -
  from net obtain l1 l2 l3 l4 where ls: "layers net = [l1, l2, l3, l4]"
      and ok: "layer_ok 542 256 l1" "layer_ok 256 128 l2" "layer_ok 128 64 l3" "layer_ok 64 5 l4"
    by (rule net_ok_four)
  from par ls have w: "layer_within 1000 l1" "layer_within 1000 l2" "layer_within 1000 l3"
      "layer_within 1000 l4"
    by simp_all
  have big: "(10::real) ^ 33 < overflow_at"
    using overflow_at_large(1) by (rule less_trans [rotated]) simp
  let ?a1 = "layer_out False l1 input"
  let ?a2 = "layer_out False l2 ?a1"
  let ?a3 = "layer_out False l3 ?a2"
  let ?a4 = "layer_out True l4 ?a3"
  have "length ?a1 = 256 \<and> list_all (within_bound (1000 + real 542 * (1000 * 10 ^ 10))) ?a1"
    using ok(1) w(1) inp big by (intro layer_out_bound) simp_all
  then have a1: "length ?a1 = 256" "list_all (within_bound (10 ^ 16)) ?a1"
    by (auto simp: list_all_iff elim!: bound_mono)
  have "length ?a2 = 128 \<and> list_all (within_bound (1000 + real 256 * (1000 * 10 ^ 16))) ?a2"
    using ok(2) w(2) a1 big by (intro layer_out_bound) simp_all
  then have a2: "length ?a2 = 128" "list_all (within_bound (10 ^ 22)) ?a2"
    by (auto simp: list_all_iff elim!: bound_mono)
  have "length ?a3 = 64 \<and> list_all (within_bound (1000 + real 128 * (1000 * 10 ^ 22))) ?a3"
    using ok(3) w(3) a2 big by (intro layer_out_bound) simp_all
  then have a3: "length ?a3 = 64" "list_all (within_bound (10 ^ 28)) ?a3"
    by (auto simp: list_all_iff elim!: bound_mono)
  have a4: "length ?a4 = 5 \<and> list_all (within_bound (1000 + real 64 * (1000 * 10 ^ 28))) ?a4"
    using ok(4) w(4) a3 big by (intro layer_out_bound) simp_all
  then have "\<forall>v\<in>set ?a4. is_Fin v"
    by (auto simp: list_all_iff bound_Fin)
  then obtain zs where "?a4 = map Fin zs" using finite_as_map by blast
  moreover have "forward_layers (layers net) input = ?a4" by (simp add: ls)
  ultimately show ?thesis using a4 by (metis length_map)
qed

text \<open>
  Hidden layers whose parameters are all 0 turn finite inputs into zeros, and a layer
  with finite parameters returns its biases on zeros.
\<close>

lemma foldl_nadd_zero:
  assumes "\<forall>k\<in>set ks. f k = Fin 0" "\<bar>b\<bar> < overflow_at"
  shows "foldl (\<lambda>s k. nadd s (f k)) (Fin b) ks = Fin b"
  using assms by (induction ks rule: rev_induct) (simp_all add: fin_small)

lemma neuron_sum_zero_weights:
  assumes "j < m" "length a = n" "\<forall>v\<in>set a. is_Fin v"
  shows "neuron_sum (zero_layer n m) a j = Fin 0"
proof -
  have "nmul (rd (weights (zero_layer n m) ! j) k) (a ! k) = Fin 0" if "k < length a" for k
  proof -
    from that assms(3) have "is_Fin (a ! k)" by simp
    then obtain v where "a ! k = Fin v" by (auto simp: is_Fin_def)
    moreover have "rd (weights (zero_layer n m) ! j) k = Fin 0"
      using that assms(1,2) by (simp add: zero_layer_def rd_def)
    ultimately show ?thesis by simp
  qed
  then have "\<forall>k\<in>set [0..<length a]. nmul (rd (weights (zero_layer n m) ! j) k) (a ! k) = Fin 0"
    by simp
  from foldl_nadd_zero [of "[0..<length a]"
      "\<lambda>k. nmul (rd (weights (zero_layer n m) ! j) k) (a ! k)" 0, OF this]
  show ?thesis
    using assms(1) overflow_at_pos by (simp add: neuron_sum_def zero_layer_def rd_def)
qed

lemma layer_out_zero_weights:
  assumes "length a = n" "\<forall>v\<in>set a. is_Fin v"
  shows "layer_out False (zero_layer n m) a = replicate m (Fin 0)"
proof (rule nth_equalityI)
  show "length (layer_out False (zero_layer n m) a) = length (replicate m (Fin 0))"
    by (simp add: zero_layer_def)
next
  fix j assume "j < length (layer_out False (zero_layer n m) a)"
  then have j: "j < m" by (simp add: zero_layer_def)
  then show "layer_out False (zero_layer n m) a ! j = replicate m (Fin 0) ! j"
    using neuron_sum_zero_weights [OF j assms]
    by (simp add: layer_out_def zero_layer_def relu_def)
qed

lemma neuron_sum_zero_input:
  assumes l: "layer_ok n m l" "layer_within B l" and B: "B < overflow_at" and j: "j < m"
  shows "neuron_sum l (replicate n (Fin 0)) j = biases l ! j"
proof -
  have jw: "j < length (weights l)" and jb: "j < length (biases l)"
    using l(1) j by (simp_all add: layer_ok_def)
  have row: "length (weights l ! j) = n" "list_all is_Fin (weights l ! j)"
    using l(1) jw by (simp_all add: layer_ok_def list_all_length)
  have "within_bound B (biases l ! j)"
    using l(2) jb by (simp add: layer_within_def list_all_length)
  then obtain c where c: "biases l ! j = Fin c" "\<bar>c\<bar> < overflow_at"
    using B by (auto simp: bound_Fin)
  have "nmul (rd (weights l ! j) k) (replicate n (Fin 0) ! k) = Fin 0" if "k < n" for k
  proof -
    from that row have "is_Fin (weights l ! j ! k)" by (simp add: list_all_length)
    then obtain v where "weights l ! j ! k = Fin v" by (auto simp: is_Fin_def)
    then show ?thesis using that row(1) by (simp add: rd_def)
  qed
  then have "\<forall>k\<in>set [0..<n]. nmul (rd (weights l ! j) k) (replicate n (Fin 0) ! k) = Fin 0"
    by simp
  from foldl_nadd_zero [of "[0..<n]"
      "\<lambda>k. nmul (rd (weights l ! j) k) (replicate n (Fin 0) ! k)" c, OF this c(2)]
  show ?thesis
    using jb c(1) by (simp add: neuron_sum_def rd_def)
qed

lemma layer_out_zero_input:
  assumes "layer_ok n m l" "layer_within B l" "B < overflow_at"
  shows "layer_out True l (replicate n (Fin 0)) = biases l"
proof (rule nth_equalityI)
  show "length (layer_out True l (replicate n (Fin 0))) = length (biases l)"
    using assms(1) by (simp add: layer_ok_def)
next
  fix j assume "j < length (layer_out True l (replicate n (Fin 0)))"
  then have j: "j < m" using assms(1) by (simp add: layer_ok_def)
  then show "layer_out True l (replicate n (Fin 0)) ! j = biases l ! j"
    using neuron_sum_zero_input [OF assms j] assms(1)
    by (simp add: layer_out_def layer_ok_def)
qed

lemma forward_zero_hidden:
  assumes "layers net = [zero_layer 542 256, zero_layer 256 128, zero_layer 128 64, out]"
    and "layer_ok 64 5 out" "layer_within B out" "B < overflow_at"
    and "length a = 542" "\<forall>v\<in>set a. is_Fin v"
  shows "forward_layers (layers net) a = biases out"
proof -
  have h1: "layer_out False (zero_layer 542 256) a = replicate 256 (Fin 0)"
    using assms(5,6) by (rule layer_out_zero_weights)
  have h2: "layer_out False (zero_layer 256 128) (replicate 256 (Fin 0)) = replicate 128 (Fin 0)"
    by (rule layer_out_zero_weights) simp_all
  have h3: "layer_out False (zero_layer 128 64) (replicate 128 (Fin 0)) = replicate 64 (Fin 0)"
    by (rule layer_out_zero_weights) simp_all
  show ?thesis
    by (simp only: assms(1) forward_layers.simps h1 h2 h3
        layer_out_zero_input [OF assms(2,3,4)])
qed

text \<open>Sums that overflow.\<close>

lemma foldl_nadd_PosInf:
  assumes "\<forall>k\<in>set ks. f k = PosInf \<or> is_Fin (f k)"
  shows "foldl (\<lambda>s k. nadd s (f k)) PosInf ks = PosInf"
  using assms by (induction ks rule: rev_induct) (auto simp: is_Fin_def)

lemma foldl_nadd_overflow:
  assumes "\<forall>k\<in>set ks. f k = Fin c" "2 \<le> length ks" "\<bar>b + c\<bar> < overflow_at"
    "overflow_at \<le> b + c + c"
  shows "foldl (\<lambda>s k. nadd s (f k)) (Fin b) ks = PosInf"
proof -
  from assms(2) obtain k1 k2 rest where ks: "ks = k1 # k2 # rest"
    by (cases ks; cases "tl ks") auto
  have two: "nadd (nadd (Fin b) (f k1)) (f k2) = PosInf"
    using assms(1,3,4) by (simp add: ks fin_small) (simp add: fin_def)
  have "\<forall>k\<in>set rest. f k = PosInf \<or> is_Fin (f k)" using assms(1) by (simp add: ks)
  then have "foldl (\<lambda>s k. nadd s (f k)) PosInf rest = PosInf" by (rule foldl_nadd_PosInf)
  then show ?thesis by (simp add: ks two)
qed

lemma neuron_sum_overflow:
  assumes "j < m"
  shows "neuron_sum (ones_layer 542 m) huge_input j = PosInf"
proof -
  have c: "(10::real) ^ 308 < overflow_at" by (rule overflow_at_large)
  have prods: "\<forall>k\<in>set [0..<542]. nmul (rd (weights (ones_layer 542 m) ! j) k) (huge_input ! k)
                 = Fin (10 ^ 308)"
    using assms c by (simp add: ones_layer_def huge_input_def rd_def fin_small)
  have fits: "\<bar>1 + (10::real) ^ 308\<bar> < overflow_at"
    by (simp add: overflow_at_def)
  have over: "overflow_at \<le> 1 + 10 ^ 308 + 10 ^ 308"
    by (simp add: overflow_at_def)
  from foldl_nadd_overflow [of "[0..<542]"
      "\<lambda>k. nmul (rd (weights (ones_layer 542 m) ! j) k) (huge_input ! k)" "10 ^ 308" 1,
      OF prods _ fits over]
  show ?thesis
    using assms by (simp add: neuron_sum_def ones_layer_def rd_def huge_input_def)
qed

lemma neuron_sum_infinite:
  assumes "j < m" "0 < n"
  shows "neuron_sum (ones_layer n m) (replicate n PosInf) j = PosInf"
proof -
  have upt: "[0..<n] = 0 # [1..<n]" using assms(2) by (simp add: upt_rec)
  have first: "nadd (Fin 1) (nmul (rd (weights (ones_layer n m) ! j) 0) (replicate n PosInf ! 0))
                 = PosInf"
    using assms by (simp add: ones_layer_def rd_def inf_of_def)
  have "\<forall>k\<in>set [1..<n]. nmul (rd (weights (ones_layer n m) ! j) k) (replicate n PosInf ! k)
          = PosInf
        \<or> is_Fin (nmul (rd (weights (ones_layer n m) ! j) k) (replicate n PosInf ! k))"
    using assms by (simp add: ones_layer_def rd_def inf_of_def)
  then have "foldl (\<lambda>s k. nadd s (nmul (rd (weights (ones_layer n m) ! j) k)
                                     (replicate n PosInf ! k))) PosInf [1..<n] = PosInf"
    by (rule foldl_nadd_PosInf)
  then show ?thesis
    using assms(1) first
    by (simp add: neuron_sum_def upt ones_layer_def rd_def del: upt_Suc)
qed

lemma ones_net_logits: "forward_layers (layers ones_net) huge_input = replicate 5 PosInf"
proof -
  have h1: "layer_out False (ones_layer 542 256) huge_input = replicate 256 PosInf"
    by (rule nth_equalityI) (simp_all add: layer_out_def ones_layer_def [of 542 256] relu_def
        neuron_sum_overflow [unfolded ones_layer_def])
  have hid: "layer_out b (ones_layer n m) (replicate n PosInf) = replicate m PosInf"
    if "0 < n" for b n m
    by (rule nth_equalityI) (simp_all add: layer_out_def ones_layer_def [of n m] relu_def
        neuron_sum_infinite [OF _ that, unfolded ones_layer_def])
  show ?thesis
    by (simp add: ones_net_def h1 hid)
qed

lemma zero_layer_ok: "layer_ok n m (zero_layer n m)" "layer_within B (zero_layer n m) \<longleftrightarrow> 0 \<le> B \<or> m = 0"
  by (auto simp: zero_layer_def layer_ok_def layer_within_def list_all_iff within_bound_def)

lemma zero_net_ok: "net_ok [542, 256, 128, 64, 5] (layers zero_net)"
  by (simp add: zero_net_def zero_layer_ok)

lemma ones_net_ok: "net_ok [542, 256, 128, 64, 5] (layers ones_net)"
  by (simp add: ones_net_def ones_layer_def layer_ok_def list_all_iff)

lemma sharp_layer_ok: "layer_ok 64 5 sharp_layer" "layer_within 1000 sharp_layer"
  by (simp_all add: sharp_layer_def layer_ok_def layer_within_def list_all_iff within_bound_def)

lemma sharp_net_ok: "net_ok [542, 256, 128, 64, 5] (layers sharp_net)"
  by (simp add: sharp_net_def zero_layer_ok sharp_layer_ok)

text \<open>
  The network of the standard sizes with all parameters 1 and the input of 542 numbers
  \<open>10^308\<close>: the parameters and the input are finite, the second addition of every sum of
  the first layer overflows, all five logits are \<^verbatim>\<open>Infinity\<close>, and \<^verbatim>\<open>forward\<close> returns
  five \<^verbatim>\<open>NaN\<close>, which do not sum to 1.
\<close>

theorem forward_sums_to_one_counterexample:
  "net_ok [542, 256, 128, 64, 5] (layers ones_net)
   \<and> length huge_input = 542 \<and> list_all is_Fin huge_input
   \<and> forward_layers (layers ones_net) huge_input = replicate 5 PosInf
   \<and> forward ones_net huge_input = replicate 5 NaN"
proof -
  have "PosInf \<in> set (forward_layers (layers ones_net) huge_input)"
    by (simp add: ones_net_logits)
  then have "forward ones_net huge_input
               = replicate (length (forward_layers (layers ones_net) huge_input)) NaN"
    unfolding forward_def by (intro softmax_not_finite) simp
  then have "forward ones_net huge_input = replicate 5 NaN"
    by (simp add: ones_net_logits)
  moreover have "list_all is_Fin huge_input" by (simp add: huge_input_def list_all_iff)
  moreover have "length huge_input = 542" by (simp add: huge_input_def)
  ultimately show ?thesis using ones_net_ok ones_net_logits by simp
qed

text \<open>
  Claim C6, as the code has it. Let the network have the sizes 542, 256, 128, 64, 5 with
  finite parameters, and let the input have 542 entries. Then:
  \<^item> \<^verbatim>\<open>forward\<close> returns five entries;
  \<^item> if all parameters have a magnitude of at most 1000 and all inputs one of at most
    \<open>10^10\<close>, no sum of the forward pass overflows, and the five logits are finite;
  \<^item> whenever the five logits \<open>zs\<close> are finite, \<^verbatim>\<open>forward\<close> returns the five numbers
    \<open>e / \<Sum> es\<close>, where \<open>e\<close> is the exponential of a logit less the largest logit (or 0 when
    that difference underflows to \<^verbatim>\<open>-Infinity\<close>): the largest logit is subtracted before the
    exponential is taken, so that no exponential overflows. These numbers lie between 0 and 1
    and their sum is 1, exactly so without rounding;
  \<^item> whenever a logit is \<^verbatim>\<open>NaN\<close> or \<^verbatim>\<open>Infinity\<close>, as after an overflow, all five entries
    are \<^verbatim>\<open>NaN\<close>.
\<close>

theorem forward_distribution:
  assumes "net_ok [542, 256, 128, 64, 5] (layers net)" "length input = 542"
  shows "length (forward net input) = 5
   \<and> (list_all (layer_within 1000) (layers net) \<and> list_all (within_bound (10 ^ 10)) input
        \<longrightarrow> (\<exists>zs. forward_layers (layers net) input = map Fin zs))
   \<and> (\<forall>zs. forward_layers (layers net) input = map Fin zs
        \<longrightarrow> (\<exists>es. es = map (\<lambda>z. if z - Max (set zs) \<le> - overflow_at then 0
                               else exp (z - Max (set zs))) zs
               \<and> forward net input = map (\<lambda>e. Fin (e / sum_list es)) es
               \<and> sum_list (map (\<lambda>e. e / sum_list es) es) = 1
               \<and> (\<forall>e\<in>set es. 0 \<le> e / sum_list es \<and> e / sum_list es \<le> 1)))
   \<and> (NaN \<in> set (forward_layers (layers net) input)
        \<or> PosInf \<in> set (forward_layers (layers net) input)
        \<longrightarrow> forward net input = replicate 5 NaN)"
proof -
  let ?out = "forward_layers (layers net) input"
  have last: "layers net \<noteq> [] \<and> length (weights (last (layers net))) = last [542, 256, 128, 64, 5]"
    using assms(1) by (rule net_ok_last) simp
  then have out: "length ?out = 5" by (simp add: forward_layers_length)
  then have len: "length (forward net input) = 5" by (simp add: forward_def)
  have fin: "list_all (layer_within 1000) (layers net) \<and> list_all (within_bound (10 ^ 10)) input
        \<longrightarrow> (\<exists>zs. ?out = map Fin zs)"
    using logits_finite [OF assms(1) _ assms(2)] by blast
  have dist: "\<exists>es. es = map (\<lambda>z. if z - Max (set zs) \<le> - overflow_at then 0
                               else exp (z - Max (set zs))) zs
               \<and> forward net input = map (\<lambda>e. Fin (e / sum_list es)) es
               \<and> sum_list (map (\<lambda>e. e / sum_list es) es) = 1
               \<and> (\<forall>e\<in>set es. 0 \<le> e / sum_list es \<and> e / sum_list es \<le> 1)"
    if zs: "?out = map Fin zs" for zs
  proof -
    define es where "es = map (\<lambda>z. if z - Max (set zs) \<le> - overflow_at then 0
                                    else exp (z - Max (set zs))) zs"
    from zs out have five: "length zs = 5" by (metis length_map)
    then have ne: "zs \<noteq> []" by auto
    have short: "real (length zs) < overflow_at" using five overflow_at_pos by simp
    note sm = softmax_Fin [OF ne short, folded es_def]
    have fw: "forward net input = map (\<lambda>e. Fin (e / sum_list es)) es"
      by (simp add: forward_def zs sm(1))
    have one: "sum_list (map (\<lambda>e. e / sum_list es) es) = 1"
      using sm(2) by (intro sum_list_normalised) simp
    have unit: "0 \<le> e / sum_list es \<and> e / sum_list es \<le> 1" if "e \<in> set es" for e
    proof -
      from that sm(3) have e: "0 \<le> e" "e \<le> 1" by simp_all
      then have "e \<le> sum_list es" using sm(2) by simp
      then show ?thesis using e sm(2) by simp
    qed
    from fw one unit es_def show ?thesis by blast
  qed
  have nan: "forward net input = replicate 5 NaN"
    if "NaN \<in> set ?out \<or> PosInf \<in> set ?out"
    using softmax_not_finite [OF that] out by (simp add: forward_def)
  from len fin dist nan show ?thesis by blast
qed

theorem forward_distribution_witness:
  "net_ok [542, 256, 128, 64, 5] (layers sharp_net) \<and> length half_input = 542
   \<and> list_all (layer_within 1000) (layers sharp_net)
   \<and> list_all (within_bound (10 ^ 10)) half_input
   \<and> forward_layers (layers sharp_net) half_input = map Fin [1000, 0, 0, 0, 0]
   \<and> length (forward sharp_net half_input) = 5
   \<and> (\<exists>ps. forward sharp_net half_input = map Fin ps \<and> sum_list ps = 1
          \<and> list_all (\<lambda>p. 0 \<le> p \<and> p \<le> 1) ps)
   \<and> net_ok [542, 256, 128, 64, 5] (layers ones_net) \<and> length huge_input = 542
   \<and> PosInf \<in> set (forward_layers (layers ones_net) huge_input)
   \<and> forward ones_net huge_input = replicate 5 NaN"
proof -
  have len: "length half_input = 542" by (simp add: half_input_def)
  have inp: "list_all (within_bound (10 ^ 10)) half_input"
    by (simp add: half_input_def list_all_iff within_bound_def)
  have par: "list_all (layer_within 1000) (layers sharp_net)"
    by (simp add: sharp_net_def zero_layer_ok sharp_layer_ok)
  have "(1000::real) < overflow_at" using overflow_at_pos by simp
  moreover have "\<forall>v\<in>set half_input. is_Fin v" by (simp add: half_input_def)
  ultimately have "forward_layers (layers sharp_net) half_input = biases sharp_layer"
    using len by (intro forward_zero_hidden [where B = 1000] sharp_layer_ok)
      (simp_all add: sharp_net_def)
  then have logits: "forward_layers (layers sharp_net) half_input = map Fin [1000, 0, 0, 0, 0]"
    by (simp add: sharp_layer_def)
  note t = forward_distribution [OF sharp_net_ok len]
  from t have five: "length (forward sharp_net half_input) = 5" by (elim conjE)
  from t have "\<forall>zs. forward_layers (layers sharp_net) half_input = map Fin zs
        \<longrightarrow> (\<exists>es. es = map (\<lambda>z. if z - Max (set zs) \<le> - overflow_at then 0
                               else exp (z - Max (set zs))) zs
               \<and> forward sharp_net half_input = map (\<lambda>e. Fin (e / sum_list es)) es
               \<and> sum_list (map (\<lambda>e. e / sum_list es) es) = 1
               \<and> (\<forall>e\<in>set es. 0 \<le> e / sum_list es \<and> e / sum_list es \<le> 1))"
    by (elim conjE)
  from this [rule_format, OF logits] obtain es :: "real list" where
      fw: "forward sharp_net half_input = map (\<lambda>e. Fin (e / sum_list es)) es"
      and one: "sum_list (map (\<lambda>e. e / sum_list es) es) = 1"
      and unit: "\<forall>e\<in>set es. 0 \<le> e / sum_list es \<and> e / sum_list es \<le> 1"
    by (elim exE conjE)
  have "\<exists>ps. forward sharp_net half_input = map Fin ps \<and> sum_list ps = 1
          \<and> list_all (\<lambda>p. 0 \<le> p \<and> p \<le> 1) ps"
  proof (intro exI conjI)
    show "forward sharp_net half_input = map Fin (map (\<lambda>e. e / sum_list es) es)"
      by (simp add: fw comp_def)
    show "sum_list (map (\<lambda>e. e / sum_list es) es) = 1" by (rule one)
    show "list_all (\<lambda>p. 0 \<le> p \<and> p \<le> 1) (map (\<lambda>e. e / sum_list es) es)"
      using unit by (simp add: list_all_iff)
  qed
  moreover have hl: "length huge_input = 542" by (simp add: huge_input_def)
  moreover have inf: "PosInf \<in> set (forward_layers (layers ones_net) huge_input)"
    by (simp add: ones_net_logits)
  moreover have "forward ones_net huge_input = replicate 5 NaN"
    using forward_distribution [OF ones_net_ok hl] inf by (elim conjE) simp
  ultimately show ?thesis
    using sharp_net_ok len par inp logits five ones_net_ok by (intro conjI)
qed

section \<open>The roster\<close>

lemma handleEntityDeath_frame [simp]:
  "length (entities (handleEntityDeath d i p)) = length (entities p)"
  "populationSize (handleEntityDeath d i p) = populationSize p"
  "pop_gridSize (handleEntityDeath d i p) = pop_gridSize p"
  "mutationRate (handleEntityDeath d i p) = mutationRate p"
  "mutationStrength (handleEntityDeath d i p) = mutationStrength p"
  by (simp_all add: handleEntityDeath_def Let_def)

lemma handleEntityDeath_counters [simp]:
  "generation (handleEntityDeath d i p) = generation p + 1"
  "totalDeaths (handleEntityDeath d i p) = totalDeaths p + 1"
  by (simp_all add: handleEntityDeath_def Let_def)







section \<open>An update of an agent returns\<close>


lemma addMemory_frame [simp]:
  "brain (addMemory ob a oc tk e) = brain e"
  "lastActionIndex (addMemory ob a oc tk e) = lastActionIndex e"
  "energy (addMemory ob a oc tk e) = energy e"
  "age (addMemory ob a oc tk e) = age e"
  "totalEnergyGained (addMemory ob a oc tk e) = totalEnergyGained e"
  "recentOutcomes (addMemory ob a oc tk e) = recentOutcomes e"
  "vision (addMemory ob a oc tk e) = vision e"
  "ent_x (addMemory ob a oc tk e) = ent_x e"
  "ent_y (addMemory ob a oc tk e) = ent_y e"
  "ent_gridSize (addMemory ob a oc tk e) = ent_gridSize e"
  by (simp_all add: addMemory_def Let_def)

lemma updateVision_frame [simp]:
  "brain (updateVision d w os e) = brain e"
  "lastActionIndex (updateVision d w os e) = lastActionIndex e"
  "lastAction (updateVision d w os e) = lastAction e"
  "energy (updateVision d w os e) = energy e"
  "age (updateVision d w os e) = age e"
  "totalEnergyGained (updateVision d w os e) = totalEnergyGained e"
  "lastTotalEnergy (updateVision d w os e) = lastTotalEnergy e"
  "recentOutcomes (updateVision d w os e) = recentOutcomes e"
  "memory (updateVision d w os e) = memory e"
  "memoryCapacity (updateVision d w os e) = memoryCapacity e"
  "ent_x (updateVision d w os e) = ent_x e"
  "ent_y (updateVision d w os e) = ent_y e"
  "ent_gridSize (updateVision d w os e) = ent_gridSize e"
  "length (vision (updateVision d w os e)) = length vision_offsets"
  by (simp_all add: updateVision_def)

lemma decay_frame [simp]:
  "brain (decay e) = brain e"
  "lastActionIndex (decay e) = lastActionIndex e"
  "lastAction (decay e) = lastAction e"
  "energy (decay e) = energy e - 0.5"
  "age (decay e) = age e + 1"
  "totalEnergyGained (decay e) = totalEnergyGained e"
  "recentOutcomes (decay e) = recentOutcomes e"
  "ent_x (decay e) = ent_x e"
  "ent_y (decay e) = ent_y e"
  "ent_gridSize (decay e) = ent_gridSize e"
  by (simp_all add: decay_def)

lemma credit_frame [simp]:
  "brain (credit g tk e) = brain e"
  "lastActionIndex (credit g tk e) = lastActionIndex e"
  "lastAction (credit g tk e) = lastAction e"
  "age (credit g tk e) = age e"
  "ent_x (credit g tk e) = ent_x e"
  "ent_y (credit g tk e) = ent_y e"
  "ent_gridSize (credit g tk e) = ent_gridSize e"
  by (simp_all add: credit_def)


lemma low_energy_frame [simp]:
  "brain (low_energy tk e) = brain e"
  "lastActionIndex (low_energy tk e) = lastActionIndex e"
  "lastAction (low_energy tk e) = lastAction e"
  "energy (low_energy tk e) = energy e"
  "age (low_energy tk e) = age e"
  "totalEnergyGained (low_energy tk e) = totalEnergyGained e"
  "ent_x (low_energy tk e) = ent_x e"
  "ent_y (low_energy tk e) = ent_y e"
  "ent_gridSize (low_energy tk e) = ent_gridSize e"
  by (simp_all add: low_energy_def)

lemma prune_frame [simp]:
  "brain (prune tk e) = brain e"
  "lastActionIndex (prune tk e) = lastActionIndex e"
  "lastAction (prune tk e) = lastAction e"
  "energy (prune tk e) = energy e"
  "age (prune tk e) = age e"
  "totalEnergyGained (prune tk e) = totalEnergyGained e"
  "ent_x (prune tk e) = ent_x e"
  "ent_y (prune tk e) = ent_y e"
  "ent_gridSize (prune tk e) = ent_gridSize e"
  by (simp_all add: prune_def)

lemma record_observation_frame [simp]:
  "brain (record_observation tk e) = brain e"
  "lastActionIndex (record_observation tk e) = lastActionIndex e"
  "energy (record_observation tk e) = energy e"
  "age (record_observation tk e) = age e"
  "totalEnergyGained (record_observation tk e) = totalEnergyGained e"
  "recentOutcomes (record_observation tk e) = recentOutcomes e"
  "vision (record_observation tk e) = vision e"
  "ent_x (record_observation tk e) = ent_x e"
  "ent_y (record_observation tk e) = ent_y e"
  "ent_gridSize (record_observation tk e) = ent_gridSize e"
  by (simp_all add: record_observation_def Let_def split: option.splits)



lemma sense_window:
  "recentOutcomes (fst (sense d w os tk e)) =
     filter (\<lambda>ou. tk - out_tick ou \<le> 10)
       (recentOutcomes (low_energy tk (credit (fst (consumeEnergy (ent_x e) (ent_y e) w)) tk
                                        (decay e))))"
  by (simp add: sense_def Let_def prune_def)








section \<open>Births\<close>







section \<open>The best living agent\<close>




section \<open>Deaths and births in the roster\<close>



























end
